theory Spec2Isabelle
  imports Main "HOL-Library.Code_Target_Numeral"
begin

section \<open>The Go standard library, as far as the file utility calls it\<close>

text \<open>
  A Go string is a sequence of bytes: it is modelled as \<open>string\<close> (a list of 8-bit
  \<open>char\<close>s). A rune is an \<open>int32\<close>; no arithmetic on runes can overflow here, so runes
  are \<open>int\<close>. The functions of this section are not part of the repository: each one is
  written after the Go implementation it stands for, with masks and shifts written as
  \<open>mod\<close> and \<open>div\<close> (\<open>b & 0x3F\<close> is \<open>b mod 64\<close>, \<open>r >> 6\<close> is \<open>r div 64\<close>).

  What the standard library takes from its platform is collected in \<open>env\<close>:
  \<^item> \<open>To_LowerCase\<close> is \<open>unicode.To(unicode.LowerCase, r)\<close>, the lookup in the Unicode
    case table \<open>unicode.CaseRanges\<close>, which \<open>unicode.ToLower\<close> consults for runes above
    \<open>MaxASCII\<close>;
  \<^item> \<open>IntSize\<close> is \<open>strconv.IntSize\<close>, the width of \<open>int\<close> (32 or 64);
  \<^item> \<open>windows\<close> tells whether \<open>os.IsPathSeparator\<close> also accepts the backslash.
\<close>

type_synonym rune = int

record env =
  To_LowerCase :: "rune \<Rightarrow> rune"
  IntSize :: nat
  windows :: bool

abbreviation byte :: "char \<Rightarrow> int" where
  "byte c \<equiv> of_char c"

definition RuneError :: rune where
  "RuneError = 0xFFFD"

definition RuneSelf :: int where
  "RuneSelf = 0x80"

definition MaxRune :: rune where
  "MaxRune = 0x10FFFF"

definition MaxASCII :: rune where
  "MaxASCII = 0x7F"

subsection \<open>unicode/utf8\<close>

text \<open>
  The table \<open>first\<close> of package utf8 with \<open>acceptRanges\<close>: for a leading byte that
  starts a multi-byte sequence, the length of the sequence and the range accepted for the
  second byte; \<open>None\<close> for the bytes marked invalid (\<open>0x80..0xC1\<close>, \<open>0xF5..0xFF\<close>).
\<close>

definition utf8_first :: "int \<Rightarrow> (nat \<times> int \<times> int) option" where
  "utf8_first s0 =
     (if 0xC2 \<le> s0 \<and> s0 \<le> 0xDF then Some (2, 0x80, 0xBF)
      else if s0 = 0xE0 then Some (3, 0xA0, 0xBF)
      else if 0xE1 \<le> s0 \<and> s0 \<le> 0xEC then Some (3, 0x80, 0xBF)
      else if s0 = 0xED then Some (3, 0x80, 0x9F)
      else if 0xEE \<le> s0 \<and> s0 \<le> 0xEF then Some (3, 0x80, 0xBF)
      else if s0 = 0xF0 then Some (4, 0x90, 0xBF)
      else if 0xF1 \<le> s0 \<and> s0 \<le> 0xF3 then Some (4, 0x80, 0xBF)
      else if s0 = 0xF4 then Some (4, 0x80, 0x8F)
      else None)"

text \<open>\<open>utf8.DecodeRuneInString\<close>: the first rune of \<open>s\<close> and its width in bytes;
  \<open>(RuneError, 1)\<close> for an invalid encoding, \<open>(RuneError, 0)\<close> for the empty string.\<close>

definition utf8_DecodeRuneInString :: "string \<Rightarrow> rune \<times> nat" where
  "utf8_DecodeRuneInString s =
     (if length s < 1 then (RuneError, 0)
      else
        let s0 = byte (s ! 0) in
        if s0 < RuneSelf then (s0, 1)
        else
          (case utf8_first s0 of
             None \<Rightarrow> (RuneError, 1)
           | Some (sz, lo, hi) \<Rightarrow>
               if length s < sz then (RuneError, 1)
               else
                 let s1 = byte (s ! 1) in
                 if s1 < lo \<or> hi < s1 then (RuneError, 1)
                 else if sz \<le> 2 then (s0 mod 32 * 64 + s1 mod 64, 2)
                 else
                   let s2 = byte (s ! 2) in
                   if s2 < 0x80 \<or> 0xBF < s2 then (RuneError, 1)
                   else if sz \<le> 3 then
                     (s0 mod 16 * 4096 + s1 mod 64 * 64 + s2 mod 64, 3)
                   else
                     let s3 = byte (s ! 3) in
                     if s3 < 0x80 \<or> 0xBF < s3 then (RuneError, 1)
                     else
                       (s0 mod 8 * 262144 + s1 mod 64 * 4096 + s2 mod 64 * 64 + s3 mod 64,
                        4)))"

text \<open>\<open>utf8.AppendRune\<close> on an empty buffer (what \<open>Builder.WriteRune\<close> appends): the
  UTF-8 encoding of \<open>r\<close>; a surrogate or a value out of range is written as
  \<open>RuneError\<close>.\<close>

definition utf8_AppendRune :: "rune \<Rightarrow> string" where
  "utf8_AppendRune r =
     (if 0 \<le> r \<and> r \<le> 0x7F then [char_of r]
      else if 0 \<le> r \<and> r \<le> 0x7FF then
        [char_of (0xC0 + r div 64), char_of (0x80 + r mod 64)]
      else if r < 0 \<or> MaxRune < r \<or> (0xD800 \<le> r \<and> r \<le> 0xDFFF) then
        [char_of (0xEF :: int), char_of (0xBF :: int), char_of (0xBD :: int)]
      else if r \<le> 0xFFFF then
        [char_of (0xE0 + r div 4096), char_of (0x80 + r div 64 mod 64),
         char_of (0x80 + r mod 64)]
      else
        [char_of (0xF0 + r div 262144), char_of (0x80 + r div 4096 mod 64),
         char_of (0x80 + r div 64 mod 64), char_of (0x80 + r mod 64)])"

text \<open>\<open>for _, c := range s\<close>: the runes of \<open>s\<close> in order, each with the bytes it was
  decoded from. An invalid byte yields \<open>RuneError\<close> and is consumed alone.\<close>

function range_string :: "string \<Rightarrow> (rune \<times> string) list" where
  "range_string s =
     (if s = [] then []
      else
        (fst (utf8_DecodeRuneInString s), take (snd (utf8_DecodeRuneInString s)) s)
          # range_string (drop (snd (utf8_DecodeRuneInString s)) s))"
  by pat_completeness auto

lemma DecodeRuneInString_width:
  "s \<noteq> [] \<Longrightarrow> 1 \<le> snd (utf8_DecodeRuneInString s)"
  by (cases s) (auto simp: utf8_DecodeRuneInString_def Let_def split: option.splits)

termination range_string
proof (relation "measure length")
  show "wf (measure length)" by simp
next
  fix s :: string
  assume "s \<noteq> []"
  with DecodeRuneInString_width [of s]
  show "(drop (snd (utf8_DecodeRuneInString s)) s, s) \<in> measure length"
    by (cases s) auto
qed

declare range_string.simps [simp del]

subsection \<open>unicode and strings\<close>

text \<open>\<open>unicode.ToLower\<close>: ASCII is handled without the table.\<close>

definition unicode_ToLower :: "env \<Rightarrow> rune \<Rightarrow> rune" where
  "unicode_ToLower env r =
     (if r \<le> MaxASCII then
        (if byte CHR ''A'' \<le> r \<and> r \<le> byte CHR ''Z''
         then r + (byte CHR ''a'' - byte CHR ''A'') else r)
      else To_LowerCase env r)"

text \<open>\<open>strings.Map\<close>: every rune of \<open>s\<close> is replaced by its image, encoded anew; a
  negative image drops the rune.\<close>

definition strings_Map :: "(rune \<Rightarrow> rune) \<Rightarrow> string \<Rightarrow> string" where
  "strings_Map mapping s =
     concat (map (\<lambda>(c, _). let r = mapping c in if 0 \<le> r then utf8_AppendRune r else [])
       (range_string s))"

definition isUpperByte :: "char \<Rightarrow> bool" where
  "isUpperByte c = (byte CHR ''A'' \<le> byte c \<and> byte c \<le> byte CHR ''Z'')"

text \<open>\<open>strings.ToLower\<close>: a string of ASCII bytes only is returned as it is when it has
  no upper-case letter, and otherwise with \<open>'a' - 'A'\<close> added to each upper-case byte;
  any other string goes through \<open>Map(unicode.ToLower, s)\<close>.\<close>

definition strings_ToLower :: "env \<Rightarrow> string \<Rightarrow> string" where
  "strings_ToLower env s =
     (let isASCII = list_all (\<lambda>c. byte c < RuneSelf) s;
          hasUpper = list_ex isUpperByte s
      in
        if isASCII then
          (if \<not> hasUpper then s
           else map (\<lambda>c. if isUpperByte c
                          then char_of (byte c + (byte CHR ''a'' - byte CHR ''A''))
                          else c) s)
        else strings_Map (unicode_ToLower env) s)"

text \<open>\<open>strings.TrimSuffix\<close>.\<close>

definition strings_TrimSuffix :: "string \<Rightarrow> string \<Rightarrow> string" where
  "strings_TrimSuffix s suffix =
     (if length suffix \<le> length s \<and> drop (length s - length suffix) s = suffix
      then take (length s - length suffix) s
      else s)"

text \<open>\<open>strings.ReplaceAll\<close>. For a non-empty \<open>old\<close> the occurrences are found from the
  left and do not overlap; an empty \<open>old\<close> matches before the first rune and after
  every rune.\<close>

function replace_from_left :: "string \<Rightarrow> string \<Rightarrow> string \<Rightarrow> string" where
  "replace_from_left old new s =
     (if s = [] \<or> old = [] then s
      else if take (length old) s = old
        then new @ replace_from_left old new (drop (length old) s)
      else hd s # replace_from_left old new (tl s))"
  by pat_completeness auto

termination replace_from_left
  by (relation "measure (\<lambda>(old, new, s). length s)") (auto simp: neq_Nil_conv)

declare replace_from_left.simps [simp del]

definition strings_ReplaceAll :: "string \<Rightarrow> string \<Rightarrow> string \<Rightarrow> string" where
  "strings_ReplaceAll s old new =
     (if old = new then s
      else if old = [] then new @ concat (map (\<lambda>(_, bs). bs @ new) (range_string s))
      else replace_from_left old new s)"

subsection \<open>path/filepath\<close>

definition os_IsPathSeparator :: "env \<Rightarrow> char \<Rightarrow> bool" where
  "os_IsPathSeparator env c =
     (c = CHR ''/'' \<or> (windows env \<and> c = CHR 0x5C))"

text \<open>\<open>filepath.Ext\<close>: the loop runs \<open>i\<close> from \<open>len(path) - 1\<close> down to \<open>0\<close>; the
  argument of \<open>Ext_loop\<close> is \<open>i + 1\<close>.\<close>

fun Ext_loop :: "env \<Rightarrow> string \<Rightarrow> nat \<Rightarrow> string" where
  "Ext_loop env path 0 = []"
| "Ext_loop env path (Suc i) =
     (if os_IsPathSeparator env (path ! i) then []
      else if path ! i = CHR ''.'' then drop i path
      else Ext_loop env path i)"

definition filepath_Ext :: "env \<Rightarrow> string \<Rightarrow> string" where
  "filepath_Ext env path = Ext_loop env path (length path)"

subsection \<open>strconv\<close>

datatype NumError = ErrSyntax | ErrRange

definition maxUint64 :: nat where
  "maxUint64 = 2 ^ 64 - 1"

text \<open>The loop of \<open>strconv.ParseUint\<close> for base 10 (no underscores, no prefix): \<open>n\<close> is
  a \<open>uint64\<close>, its wrap-around is written out.\<close>

fun ParseUint_loop :: "nat \<Rightarrow> nat \<Rightarrow> string \<Rightarrow> nat \<times> NumError option" where
  "ParseUint_loop maxVal n [] = (n, None)"
| "ParseUint_loop maxVal n (c # cs) =
     (if of_char CHR ''0'' \<le> (of_char c :: nat) \<and> (of_char c :: nat) \<le> of_char CHR ''9'' then
        (let d = of_char c - of_char CHR ''0'' in
         if maxUint64 div 10 + 1 \<le> n then (maxVal, Some ErrRange)
         else
           let n' = n * 10 mod 2 ^ 64;
               n1 = (n' + d) mod 2 ^ 64
           in
             if n1 < n' \<or> maxVal < n1 then (maxVal, Some ErrRange)
             else ParseUint_loop maxVal n1 cs)
      else (0, Some ErrSyntax))"

text \<open>\<open>strconv.ParseUint(s, 10, 0)\<close>.\<close>

definition strconv_ParseUint :: "env \<Rightarrow> string \<Rightarrow> nat \<times> NumError option" where
  "strconv_ParseUint env s =
     (if s = [] then (0, Some ErrSyntax)
      else
        let bitSize = IntSize env;
            maxVal = (2 ^ bitSize mod 2 ^ 64 + (2 ^ 64 - 1)) mod 2 ^ 64
        in ParseUint_loop maxVal 0 s)"

text \<open>\<open>strconv.ParseInt(s, 10, 0)\<close>. The conversion \<open>int64(un)\<close> followed by the
  negation gives \<open>- un\<close> also for \<open>un = 2 ^ 63\<close>, where both steps wrap.\<close>

definition strconv_ParseInt :: "env \<Rightarrow> string \<Rightarrow> int \<times> NumError option" where
  "strconv_ParseInt env s =
     (if s = [] then (0, Some ErrSyntax)
      else
        let neg = (hd s = CHR ''-'');
            s' = (if hd s = CHR ''+'' \<or> hd s = CHR ''-'' then tl s else s);
            (un, err) = strconv_ParseUint env s'
        in
          if err \<noteq> None \<and> err \<noteq> Some ErrRange then (0, err)
          else
            let bitSize = IntSize env;
                cutoff = 2 ^ (bitSize - 1) mod 2 ^ 64
            in
              if \<not> neg \<and> cutoff \<le> un then (int cutoff - 1, Some ErrRange)
              else if neg \<and> cutoff < un then (- int cutoff, Some ErrRange)
              else (if neg then - int un else int un, None))"

subsection \<open>net/http\<close>

text \<open>Of the response to a HEAD request only the header is read. \<open>Header.Get\<close> returns
  the first value stored under the key, or the empty string; the one key asked for,
  \<open>Content-Length\<close>, is its own canonical form.\<close>

type_synonym Header = "string \<rightharpoonup> string list"

record Response =
  Header :: Header

definition Header_Get :: "Header \<Rightarrow> string \<Rightarrow> string" where
  "Header_Get h key =
     (case h key of None \<Rightarrow> [] | Some [] \<Rightarrow> [] | Some (v # _) \<Rightarrow> v)"

section \<open>Package onlyoffice: file.go\<close>

subsection \<open>Errors, document types and the extension maps\<close>

text \<open>The two error values of the package, and an error of \<open>http.Head\<close>, which
  \<open>ValidateFileSize\<close> hands on. The two package variables that hold the error values
  are assigned at their declaration only, so they are constants here. A result of type
  \<open>error\<close> is an \<open>error option\<close>, with \<open>None\<close> for \<open>nil\<close>.\<close>

datatype error =
    ErrOnlyofficeExtensionNotSupported
  | ErrInvalidContentLength
  | HeadError string

definition OnlyofficeWordType :: string where
  "OnlyofficeWordType = ''word''"

definition OnlyofficeCellType :: string where
  "OnlyofficeCellType = ''cell''"

definition OnlyofficeSlideType :: string where
  "OnlyofficeSlideType = ''slide''"

text \<open>The four composite literals, entry by entry in the order of the source.\<close>

definition OnlyofficeEditableExtensions_literal :: "(string \<times> string) list" where
  "OnlyofficeEditableExtensions_literal =
    [(''docm'', OnlyofficeWordType),
     (''docx'', OnlyofficeWordType),
     (''docxf'', OnlyofficeWordType),
     (''oform'', OnlyofficeWordType),
     (''dotm'', OnlyofficeWordType),
     (''dotx'', OnlyofficeWordType),
     (''xlsm'', OnlyofficeCellType),
     (''xlsx'', OnlyofficeCellType),
     (''xltm'', OnlyofficeCellType),
     (''xltx'', OnlyofficeCellType),
     (''potm'', OnlyofficeSlideType),
     (''potx'', OnlyofficeSlideType),
     (''ppsm'', OnlyofficeSlideType),
     (''ppsx'', OnlyofficeSlideType),
     (''pptm'', OnlyofficeSlideType),
     (''pptx'', OnlyofficeSlideType)]"

definition OnlyofficeOOXMLEditableExtensions_literal :: "(string \<times> string) list" where
  "OnlyofficeOOXMLEditableExtensions_literal =
    [(''doc'', OnlyofficeWordType),
     (''dot'', OnlyofficeWordType),
     (''fodt'', OnlyofficeWordType),
     (''mht'', OnlyofficeWordType),
     (''xml'', OnlyofficeWordType),
     (''sxw'', OnlyofficeWordType),
     (''stw'', OnlyofficeWordType),
     (''htm'', OnlyofficeWordType),
     (''mhtml'', OnlyofficeWordType),
     (''wps'', OnlyofficeWordType),
     (''wpt'', OnlyofficeWordType),
     (''fods'', OnlyofficeCellType),
     (''xls'', OnlyofficeCellType),
     (''xlt'', OnlyofficeCellType),
     (''sxc'', OnlyofficeCellType),
     (''et'', OnlyofficeCellType),
     (''ett'', OnlyofficeCellType),
     (''xlsb'', OnlyofficeCellType),
     (''fodp'', OnlyofficeSlideType),
     (''pot'', OnlyofficeSlideType),
     (''pps'', OnlyofficeSlideType),
     (''ppt'', OnlyofficeSlideType),
     (''sxi'', OnlyofficeSlideType),
     (''dps'', OnlyofficeSlideType),
     (''dpt'', OnlyofficeSlideType)]"

definition OnlyofficeDataLossEditableExtensions_literal :: "(string \<times> string) list" where
  "OnlyofficeDataLossEditableExtensions_literal =
    [(''epub'', OnlyofficeWordType),
     (''fb2'', OnlyofficeWordType),
     (''html'', OnlyofficeWordType),
     (''odt'', OnlyofficeWordType),
     (''ott'', OnlyofficeWordType),
     (''rtf'', OnlyofficeWordType),
     (''txt'', OnlyofficeWordType),
     (''csv'', OnlyofficeCellType),
     (''ods'', OnlyofficeCellType),
     (''ots'', OnlyofficeCellType),
     (''odp'', OnlyofficeSlideType),
     (''otp'', OnlyofficeSlideType)]"

definition OnlyofficeViewOnlyExtensions_literal :: "(string \<times> string) list" where
  "OnlyofficeViewOnlyExtensions_literal =
    [(''djvu'', OnlyofficeWordType),
     (''oxps'', OnlyofficeWordType),
     (''pdf'', OnlyofficeWordType),
     (''xps'', OnlyofficeWordType)]"

text \<open>The four maps are package-level variables: they are the state the methods run
  in. Every method takes the state and returns it with its result. \<open>package_init\<close> is
  the state after the package's initialisation, each variable holding the map built from
  its literal.\<close>

record globals =
  OnlyofficeEditableExtensions :: "string \<rightharpoonup> string"
  OnlyofficeOOXMLEditableExtensions :: "string \<rightharpoonup> string"
  OnlyofficeDataLossEditableExtensions :: "string \<rightharpoonup> string"
  OnlyofficeViewOnlyExtensions :: "string \<rightharpoonup> string"

definition package_init :: globals where
  "package_init =
     \<lparr> OnlyofficeEditableExtensions = map_of OnlyofficeEditableExtensions_literal,
       OnlyofficeOOXMLEditableExtensions = map_of OnlyofficeOOXMLEditableExtensions_literal,
       OnlyofficeDataLossEditableExtensions =
         map_of OnlyofficeDataLossEditableExtensions_literal,
       OnlyofficeViewOnlyExtensions = map_of OnlyofficeViewOnlyExtensions_literal \<rparr>"

subsection \<open>The methods of \<open>fileUtility\<close>\<close>

text \<open>The receiver is an empty struct and is left out. \<open>ValidateFileSize\<close> never reads
  its context; \<open>http.Head\<close>, the one call that leaves the program, is an argument: it
  maps the URL to an error or to a response.\<close>

definition ValidateFileSize ::
  "env \<Rightarrow> globals \<Rightarrow> (string \<Rightarrow> error + Response) \<Rightarrow> int \<Rightarrow> string
     \<Rightarrow> error option \<times> globals" where
  "ValidateFileSize env g http_Head limit url =
     (case http_Head url of
        Inl err \<Rightarrow> (Some err, g)
      | Inr resp \<Rightarrow>
          let (val, err) = strconv_ParseInt env (Header_Get (Header resp) ''Content-Length'')
          in
            if limit < val \<or> err \<noteq> None then (Some ErrInvalidContentLength, g)
            else (None, g))"

definition EscapeFilename :: "env \<Rightarrow> globals \<Rightarrow> string \<Rightarrow> string \<times> globals" where
  "EscapeFilename env g filename =
     (let f = strings_ReplaceAll filename [CHR 0x5C] '':'';
          f = strings_ReplaceAll f ''/'' '':''
      in (f, g))"

definition IsExtensionSupported :: "env \<Rightarrow> globals \<Rightarrow> string \<Rightarrow> bool \<times> globals" where
  "IsExtensionSupported env g fileExt =
     (let ext = strings_ToLower env fileExt in
      if OnlyofficeDataLossEditableExtensions g ext \<noteq> None then (True, g)
      else if OnlyofficeEditableExtensions g ext \<noteq> None then (True, g)
      else if OnlyofficeOOXMLEditableExtensions g ext \<noteq> None then (True, g)
      else if OnlyofficeViewOnlyExtensions g ext \<noteq> None then (True, g)
      else (False, g))"

definition IsExtensionEditable :: "env \<Rightarrow> globals \<Rightarrow> string \<Rightarrow> bool \<times> globals" where
  "IsExtensionEditable env g fileExt =
     (let exists = (OnlyofficeEditableExtensions g (strings_ToLower env fileExt) \<noteq> None)
      in (exists, g))"

definition IsExtensionViewOnly :: "env \<Rightarrow> globals \<Rightarrow> string \<Rightarrow> bool \<times> globals" where
  "IsExtensionViewOnly env g fileExt =
     (let exists = (OnlyofficeViewOnlyExtensions g (strings_ToLower env fileExt) \<noteq> None)
      in (exists, g))"

definition IsExtensionLossEditable :: "env \<Rightarrow> globals \<Rightarrow> string \<Rightarrow> bool \<times> globals" where
  "IsExtensionLossEditable env g fileExt =
     (let exists =
        (OnlyofficeDataLossEditableExtensions g (strings_ToLower env fileExt) \<noteq> None)
      in (exists, g))"

definition IsExtensionOOXMLConvertable :: "env \<Rightarrow> globals \<Rightarrow> string \<Rightarrow> bool \<times> globals" where
  "IsExtensionOOXMLConvertable env g fileExt =
     (let exists =
        (OnlyofficeOOXMLEditableExtensions g (strings_ToLower env fileExt) \<noteq> None)
      in (exists, g))"

definition GetFilenameWithoutExtension ::
  "env \<Rightarrow> globals \<Rightarrow> string \<Rightarrow> string \<times> globals" where
  "GetFilenameWithoutExtension env g filename =
     (strings_TrimSuffix filename (filepath_Ext env filename), g)"

definition GetFileType ::
  "env \<Rightarrow> globals \<Rightarrow> string \<Rightarrow> (string \<times> error option) \<times> globals" where
  "GetFileType env g fileExt =
     (let ext = strings_ToLower env fileExt in
      case OnlyofficeEditableExtensions g ext of
        Some fType \<Rightarrow> ((fType, None), g)
      | None \<Rightarrow>
      (case OnlyofficeDataLossEditableExtensions g ext of
        Some fType \<Rightarrow> ((fType, None), g)
      | None \<Rightarrow>
      (case OnlyofficeOOXMLEditableExtensions g ext of
        Some fType \<Rightarrow> ((fType, None), g)
      | None \<Rightarrow>
      (case OnlyofficeViewOnlyExtensions g ext of
        Some fType \<Rightarrow> ((fType, None), g)
      | None \<Rightarrow> (([], Some ErrOnlyofficeExtensionNotSupported), g)))))"

definition GetFileExt :: "env \<Rightarrow> globals \<Rightarrow> string \<Rightarrow> string \<times> globals" where
  "GetFileExt env g filename =
     (strings_ReplaceAll (filepath_Ext env filename) ''.'' [], g)"

subsection \<open>Auxiliary notions for the statements\<close>

text \<open>The three document types.\<close>

definition doc_types :: "string set" where
  "doc_types = {OnlyofficeWordType, OnlyofficeCellType, OnlyofficeSlideType}"

text \<open>All entries of the four literals, in the order of the source file.\<close>

definition all_literals :: "(string \<times> string) list" where
  "all_literals =
     OnlyofficeEditableExtensions_literal @ OnlyofficeOOXMLEditableExtensions_literal
       @ OnlyofficeDataLossEditableExtensions_literal @ OnlyofficeViewOnlyExtensions_literal"

text \<open>The lookup of \<open>GetFileType\<close>, with the maps to consult given as a list: the first
  map that has the extension decides. \<open>GetFileType\<close> itself consults the editable, the
  data-loss, the OOXML and the view-only map, in this order.\<close>

fun GetFileType_in_order ::
  "(string \<rightharpoonup> string) list \<Rightarrow> string \<Rightarrow> string \<times> error option" where
  "GetFileType_in_order [] ext = ([], Some ErrOnlyofficeExtensionNotSupported)"
| "GetFileType_in_order (m # ms) ext =
     (case m ext of
        Some fType \<Rightarrow> (fType, None)
      | None \<Rightarrow> GetFileType_in_order ms ext)"

text \<open>What \<open>EscapeFilename\<close> is to do with one byte: a backslash or a slash becomes
  a colon, any other byte stays.\<close>

definition escape_byte :: "char \<Rightarrow> char" where
  "escape_byte c = (if c = CHR 0x5C \<or> c = CHR ''/'' then CHR '':'' else c)"

text \<open>The interface \<open>OnlyofficeFileUtility\<close>: a call of one of its ten methods with its
  arguments, what the call returns, and the effect of a call and of a sequence of calls on
  the package state.\<close>

datatype call =
    Call_ValidateFileSize "string \<Rightarrow> error + Response" int string
  | Call_EscapeFilename string
  | Call_IsExtensionSupported string
  | Call_IsExtensionEditable string
  | Call_IsExtensionViewOnly string
  | Call_IsExtensionLossEditable string
  | Call_IsExtensionOOXMLConvertable string
  | Call_GetFilenameWithoutExtension string
  | Call_GetFileType string
  | Call_GetFileExt string

datatype outcome =
    Out_error "error option"
  | Out_string string
  | Out_bool bool
  | Out_type string "error option"

fun invoke :: "env \<Rightarrow> globals \<Rightarrow> call \<Rightarrow> outcome \<times> globals" where
  "invoke env g (Call_ValidateFileSize http_Head limit url) =
     apfst Out_error (ValidateFileSize env g http_Head limit url)"
| "invoke env g (Call_EscapeFilename filename) =
     apfst Out_string (EscapeFilename env g filename)"
| "invoke env g (Call_IsExtensionSupported fileExt) =
     apfst Out_bool (IsExtensionSupported env g fileExt)"
| "invoke env g (Call_IsExtensionEditable fileExt) =
     apfst Out_bool (IsExtensionEditable env g fileExt)"
| "invoke env g (Call_IsExtensionViewOnly fileExt) =
     apfst Out_bool (IsExtensionViewOnly env g fileExt)"
| "invoke env g (Call_IsExtensionLossEditable fileExt) =
     apfst Out_bool (IsExtensionLossEditable env g fileExt)"
| "invoke env g (Call_IsExtensionOOXMLConvertable fileExt) =
     apfst Out_bool (IsExtensionOOXMLConvertable env g fileExt)"
| "invoke env g (Call_GetFilenameWithoutExtension filename) =
     apfst Out_string (GetFilenameWithoutExtension env g filename)"
| "invoke env g (Call_GetFileType fileExt) =
     apfst (\<lambda>(fType, err). Out_type fType err) (GetFileType env g fileExt)"
| "invoke env g (Call_GetFileExt filename) =
     apfst Out_string (GetFileExt env g filename)"

fun run_calls :: "env \<Rightarrow> globals \<Rightarrow> call list \<Rightarrow> outcome list \<times> globals" where
  "run_calls env g [] = ([], g)"
| "run_calls env g (c # cs) =
     (let (out, g') = invoke env g c;
          (outs, g'') = run_calls env g' cs
      in (out # outs, g''))"

text \<open>A header value that parses as a base-10 integer: an optional sign, then one
  decimal digit or more and nothing else, with a value that an \<open>int\<close> of the platform
  holds. \<open>decimal_value n cs\<close> reads the digits \<open>cs\<close> after a prefix of value \<open>n\<close>.\<close>

definition isDigit :: "char \<Rightarrow> bool" where
  "isDigit c =
     (of_char CHR ''0'' \<le> (of_char c :: nat) \<and> (of_char c :: nat) \<le> of_char CHR ''9'')"

fun decimal_value :: "nat \<Rightarrow> string \<Rightarrow> nat" where
  "decimal_value n [] = n"
| "decimal_value n (c # cs) = decimal_value (n * 10 + (of_char c - of_char CHR ''0'')) cs"

definition base10_int :: "env \<Rightarrow> string \<Rightarrow> int option" where
  "base10_int env s =
     (let neg = (s \<noteq> [] \<and> hd s = CHR ''-'');
          digits = (if s \<noteq> [] \<and> (hd s = CHR ''+'' \<or> hd s = CHR ''-'') then tl s else s);
          v = (if neg then - int (decimal_value 0 digits) else int (decimal_value 0 digits))
      in
        if digits \<noteq> [] \<and> list_all isDigit digits
           \<and> - (2 ^ (IntSize env - 1)) \<le> v \<and> v < 2 ^ (IntSize env - 1)
        then Some v else None)"

text \<open>A rune that UTF-8 encodes as itself: a Unicode scalar value.\<close>

definition valid_rune :: "rune \<Rightarrow> bool" where
  "valid_rune r = (0 \<le> r \<and> r \<le> MaxRune \<and> \<not> (0xD800 \<le> r \<and> r \<le> 0xDFFF))"

definition isUpperRune :: "rune \<Rightarrow> bool" where
  "isUpperRune r = (byte CHR ''A'' \<le> r \<and> r \<le> byte CHR ''Z'')"

text \<open>What is taken for granted about the Unicode case table, for the runes above
  \<open>MaxASCII\<close>: the lower-case form of a scalar value is a scalar value, it is no ASCII
  capital, and it is its own lower-case form.\<close>

definition case_table_ok :: "env \<Rightarrow> bool" where
  "case_table_ok env =
     (\<forall>r. valid_rune r \<and> MaxASCII < r \<longrightarrow>
        valid_rune (To_LowerCase env r)
        \<and> \<not> isUpperRune (To_LowerCase env r)
        \<and> (MaxASCII < To_LowerCase env r
             \<longrightarrow> To_LowerCase env (To_LowerCase env r) = To_LowerCase env r))"

text \<open>A scalar value that \<open>unicode.ToLower\<close> leaves alone.\<close>

definition lower_rune :: "env \<Rightarrow> rune \<Rightarrow> bool" where
  "lower_rune env r = (valid_rune r \<and> unicode_ToLower env r = r)"

text \<open>A platform to run the methods on: a 64-bit Unix whose case table lowers the
  Latin-1 capitals, \<open>U+0130\<close> (to \<open>i\<close>) and \<open>U+212A\<close> (to \<open>k\<close>), as Unicode does, and
  leaves every other rune alone.\<close>

definition example_env :: env where
  "example_env =
     \<lparr> To_LowerCase =
         (\<lambda>r. if r = 0x130 then 0x69
              else if r = 0x212A then 0x6B
              else if 0xC0 \<le> r \<and> r \<le> 0xDE \<and> r \<noteq> 0xD7 then r + 32
              else r),
       IntSize = 64,
       windows = False \<rparr>"

section \<open>Properties of the file utility\<close>

subsection \<open>Running the model on concrete strings\<close>

lemmas literal_defs =
  OnlyofficeEditableExtensions_literal_def OnlyofficeOOXMLEditableExtensions_literal_def
  OnlyofficeDataLossEditableExtensions_literal_def OnlyofficeViewOnlyExtensions_literal_def

lemma ToLower_DOCX: "strings_ToLower example_env ''DOCX'' = ''docx''"
  by (simp add: strings_ToLower_def isUpperByte_def RuneSelf_def char_of_eq_iff)

lemma ToLower_exe: "strings_ToLower example_env ''exe'' = ''exe''"
  by (simp add: strings_ToLower_def isUpperByte_def RuneSelf_def)

lemma docx_is_key:
  "''docx'' \<in> dom (OnlyofficeEditableExtensions package_init)"
  by (simp add: package_init_def dom_map_of_conv_image_fst literal_defs)

lemma exe_is_no_key:
  "''exe'' \<notin> dom (OnlyofficeEditableExtensions package_init)
       \<union> dom (OnlyofficeOOXMLEditableExtensions package_init)
       \<union> dom (OnlyofficeDataLossEditableExtensions package_init)
       \<union> dom (OnlyofficeViewOnlyExtensions package_init)"
  by (simp add: package_init_def dom_map_of_conv_image_fst literal_defs)

subsection \<open>The result of \<open>GetFileType\<close>\<close>

lemma literal_values:
  "snd ` set OnlyofficeEditableExtensions_literal \<subseteq> doc_types"
  "snd ` set OnlyofficeOOXMLEditableExtensions_literal \<subseteq> doc_types"
  "snd ` set OnlyofficeDataLossEditableExtensions_literal \<subseteq> doc_types"
  "snd ` set OnlyofficeViewOnlyExtensions_literal \<subseteq> doc_types"
  by (simp_all add: literal_defs doc_types_def)

lemma map_of_value_in:
  assumes "snd ` set l \<subseteq> T" and "map_of l k = Some v"
  shows "v \<in> T"
proof -
  from assms(2) have "(k, v) \<in> set l" by (rule map_of_SomeD)
  then have "v \<in> snd ` set l" by force
  with assms(1) show ?thesis by blast
qed

lemma package_init_values:
  "OnlyofficeEditableExtensions package_init k = Some v \<Longrightarrow> v \<in> doc_types"
  "OnlyofficeOOXMLEditableExtensions package_init k = Some v \<Longrightarrow> v \<in> doc_types"
  "OnlyofficeDataLossEditableExtensions package_init k = Some v \<Longrightarrow> v \<in> doc_types"
  "OnlyofficeViewOnlyExtensions package_init k = Some v \<Longrightarrow> v \<in> doc_types"
  by (auto simp: package_init_def intro: map_of_value_in [OF literal_values(1)]
      map_of_value_in [OF literal_values(2)] map_of_value_in [OF literal_values(3)]
      map_of_value_in [OF literal_values(4)])

text \<open>
  Claim C1. For every extension string \<open>e\<close>: when the lower-cased \<open>e\<close> is a key of at
  least one of the four extension maps, \<open>GetFileType\<close> returns a document type (one of
  \<open>word\<close>, \<open>cell\<close>, \<open>slide\<close>) with a \<open>nil\<close> error; when it is a key of none of them,
  \<open>GetFileType\<close> returns the empty string with \<open>ErrOnlyofficeExtensionNotSupported\<close>.
\<close>

theorem GetFileType_result:
  "(strings_ToLower env e \<in> dom (OnlyofficeEditableExtensions package_init)
        \<union> dom (OnlyofficeOOXMLEditableExtensions package_init)
        \<union> dom (OnlyofficeDataLossEditableExtensions package_init)
        \<union> dom (OnlyofficeViewOnlyExtensions package_init)
      \<longrightarrow> (\<exists>t. t \<in> doc_types \<and> fst (GetFileType env package_init e) = (t, None)))
   \<and> (strings_ToLower env e \<notin> dom (OnlyofficeEditableExtensions package_init)
        \<union> dom (OnlyofficeOOXMLEditableExtensions package_init)
        \<union> dom (OnlyofficeDataLossEditableExtensions package_init)
        \<union> dom (OnlyofficeViewOnlyExtensions package_init)
      \<longrightarrow> fst (GetFileType env package_init e)
            = ([], Some ErrOnlyofficeExtensionNotSupported))"
  by (auto simp: GetFileType_def Let_def dom_def dest: package_init_values
      split: option.splits)

theorem GetFileType_result_witness:
  "strings_ToLower example_env ''DOCX''
       \<in> dom (OnlyofficeEditableExtensions package_init)
   \<and> (\<exists>t. t \<in> doc_types
          \<and> fst (GetFileType example_env package_init ''DOCX'') = (t, None))
   \<and> strings_ToLower example_env ''exe''
       \<notin> dom (OnlyofficeEditableExtensions package_init)
         \<union> dom (OnlyofficeOOXMLEditableExtensions package_init)
         \<union> dom (OnlyofficeDataLossEditableExtensions package_init)
         \<union> dom (OnlyofficeViewOnlyExtensions package_init)
   \<and> fst (GetFileType example_env package_init ''exe'')
       = ([], Some ErrOnlyofficeExtensionNotSupported)"
proof -
  have key: "strings_ToLower example_env ''DOCX''
      \<in> dom (OnlyofficeEditableExtensions package_init)"
    by (simp only: ToLower_DOCX docx_is_key)
  have nokey: "strings_ToLower example_env ''exe''
      \<notin> dom (OnlyofficeEditableExtensions package_init)
        \<union> dom (OnlyofficeOOXMLEditableExtensions package_init)
        \<union> dom (OnlyofficeDataLossEditableExtensions package_init)
        \<union> dom (OnlyofficeViewOnlyExtensions package_init)"
    by (simp only: ToLower_exe exe_is_no_key not_False_eq_True)
  from key GetFileType_result [of example_env "''DOCX''"]
  have "\<exists>t. t \<in> doc_types
      \<and> fst (GetFileType example_env package_init ''DOCX'') = (t, None)"
    by blast
  moreover from nokey GetFileType_result [of example_env "''exe''"]
  have "fst (GetFileType example_env package_init ''exe'')
      = ([], Some ErrOnlyofficeExtensionNotSupported)"
    by blast
  ultimately show ?thesis using key nokey by blast
qed

subsection \<open>The predicates and the maps\<close>

text \<open>
  Claim C2. For every extension string \<open>e\<close>, \<open>IsExtensionSupported(e)\<close> is true if and
  only if at least one of \<open>IsExtensionEditable(e)\<close>, \<open>IsExtensionLossEditable(e)\<close>,
  \<open>IsExtensionOOXMLConvertable(e)\<close>, \<open>IsExtensionViewOnly(e)\<close> is true, and that holds
  if and only if the error returned by \<open>GetFileType(e)\<close> is \<open>nil\<close>. This holds whatever
  the four maps contain.
\<close>

theorem IsExtensionSupported_iff:
  "fst (IsExtensionSupported env g e) =
     (fst (IsExtensionEditable env g e) \<or> fst (IsExtensionLossEditable env g e)
      \<or> fst (IsExtensionOOXMLConvertable env g e) \<or> fst (IsExtensionViewOnly env g e))
   \<and> (fst (IsExtensionEditable env g e) \<or> fst (IsExtensionLossEditable env g e)
      \<or> fst (IsExtensionOOXMLConvertable env g e) \<or> fst (IsExtensionViewOnly env g e))
     = (snd (fst (GetFileType env g e)) = None)"
  by (auto simp: IsExtensionSupported_def IsExtensionEditable_def IsExtensionLossEditable_def
      IsExtensionOOXMLConvertable_def IsExtensionViewOnly_def GetFileType_def Let_def
      split: option.splits)

text \<open>
  Claim C3. For every extension string \<open>e\<close>, \<open>IsExtensionEditable(e)\<close> is true iff
  \<open>ToLower(e)\<close> is a key of \<open>OnlyofficeEditableExtensions\<close>, \<open>IsExtensionViewOnly(e)\<close> iff
  it is a key of \<open>OnlyofficeViewOnlyExtensions\<close>, \<open>IsExtensionLossEditable(e)\<close> iff it is a
  key of \<open>OnlyofficeDataLossEditableExtensions\<close>, and \<open>IsExtensionOOXMLConvertable(e)\<close>
  iff it is a key of \<open>OnlyofficeOOXMLEditableExtensions\<close>.
\<close>

theorem predicates_are_lookups:
  "fst (IsExtensionEditable env g e)
     = (strings_ToLower env e \<in> dom (OnlyofficeEditableExtensions g))
   \<and> fst (IsExtensionViewOnly env g e)
     = (strings_ToLower env e \<in> dom (OnlyofficeViewOnlyExtensions g))
   \<and> fst (IsExtensionLossEditable env g e)
     = (strings_ToLower env e \<in> dom (OnlyofficeDataLossEditableExtensions g))
   \<and> fst (IsExtensionOOXMLConvertable env g e)
     = (strings_ToLower env e \<in> dom (OnlyofficeOOXMLEditableExtensions g))"
  by (simp add: IsExtensionEditable_def IsExtensionViewOnly_def IsExtensionLossEditable_def
      IsExtensionOOXMLConvertable_def dom_def)

subsection \<open>The contents of the four maps\<close>

lemma keys_lower: "list_all (\<lambda>(k, v). strings_ToLower env k = k) all_literals"
  by (simp add: all_literals_def literal_defs strings_ToLower_def isUpperByte_def
      RuneSelf_def)

lemma keys_distinct: "distinct (map fst all_literals)"
  by (simp add: all_literals_def literal_defs)

lemma dom_init:
  "dom (OnlyofficeEditableExtensions package_init)
     = fst ` set OnlyofficeEditableExtensions_literal"
  "dom (OnlyofficeOOXMLEditableExtensions package_init)
     = fst ` set OnlyofficeOOXMLEditableExtensions_literal"
  "dom (OnlyofficeDataLossEditableExtensions package_init)
     = fst ` set OnlyofficeDataLossEditableExtensions_literal"
  "dom (OnlyofficeViewOnlyExtensions package_init)
     = fst ` set OnlyofficeViewOnlyExtensions_literal"
  by (simp_all add: package_init_def dom_map_of_conv_image_fst)

lemma key_lower:
  assumes "k \<in> fst ` set all_literals"
  shows "strings_ToLower env k = k"
proof -
  from assms obtain v where "(k, v) \<in> set all_literals" by auto
  with keys_lower [of env] show ?thesis by (auto simp: list_all_iff)
qed

text \<open>
  Claim C5. In each of the four extension maps every key equals its own lower-case form
  and every value is one of the three categories \<open>word\<close>, \<open>cell\<close>, \<open>slide\<close>; the keys
  written in each composite literal are pairwise different.
\<close>

theorem extension_maps_wellformed:
  "(\<forall>k \<in> dom (OnlyofficeEditableExtensions package_init). strings_ToLower env k = k)
   \<and> (\<forall>k \<in> dom (OnlyofficeOOXMLEditableExtensions package_init).
         strings_ToLower env k = k)
   \<and> (\<forall>k \<in> dom (OnlyofficeDataLossEditableExtensions package_init).
         strings_ToLower env k = k)
   \<and> (\<forall>k \<in> dom (OnlyofficeViewOnlyExtensions package_init). strings_ToLower env k = k)
   \<and> distinct (map fst OnlyofficeEditableExtensions_literal)
   \<and> distinct (map fst OnlyofficeOOXMLEditableExtensions_literal)
   \<and> distinct (map fst OnlyofficeDataLossEditableExtensions_literal)
   \<and> distinct (map fst OnlyofficeViewOnlyExtensions_literal)
   \<and> ran (OnlyofficeEditableExtensions package_init) \<subseteq> doc_types
   \<and> ran (OnlyofficeOOXMLEditableExtensions package_init) \<subseteq> doc_types
   \<and> ran (OnlyofficeDataLossEditableExtensions package_init) \<subseteq> doc_types
   \<and> ran (OnlyofficeViewOnlyExtensions package_init) \<subseteq> doc_types"
proof -
  have lower:
    "\<forall>k \<in> dom (OnlyofficeEditableExtensions package_init). strings_ToLower env k = k"
    "\<forall>k \<in> dom (OnlyofficeOOXMLEditableExtensions package_init). strings_ToLower env k = k"
    "\<forall>k \<in> dom (OnlyofficeDataLossEditableExtensions package_init).
       strings_ToLower env k = k"
    "\<forall>k \<in> dom (OnlyofficeViewOnlyExtensions package_init). strings_ToLower env k = k"
    by (auto simp: dom_init all_literals_def intro!: key_lower)
  have uniq:
    "distinct (map fst OnlyofficeEditableExtensions_literal)"
    "distinct (map fst OnlyofficeOOXMLEditableExtensions_literal)"
    "distinct (map fst OnlyofficeDataLossEditableExtensions_literal)"
    "distinct (map fst OnlyofficeViewOnlyExtensions_literal)"
    using keys_distinct by (simp_all add: all_literals_def)
  have vals:
    "ran (OnlyofficeEditableExtensions package_init) \<subseteq> doc_types"
    "ran (OnlyofficeOOXMLEditableExtensions package_init) \<subseteq> doc_types"
    "ran (OnlyofficeDataLossEditableExtensions package_init) \<subseteq> doc_types"
    "ran (OnlyofficeViewOnlyExtensions package_init) \<subseteq> doc_types"
    by (auto simp: ran_def dest: package_init_values)
  from lower uniq vals show ?thesis by blast
qed

theorem extension_maps_wellformed_witness:
  "''docx'' \<in> dom (OnlyofficeEditableExtensions package_init)
   \<and> strings_ToLower example_env ''docx'' = ''docx''"
  using extension_maps_wellformed [of example_env] docx_is_key by blast

subsection \<open>The four maps share no key\<close>

lemma key_sets_disjoint:
  "dom (OnlyofficeEditableExtensions package_init)
     \<inter> dom (OnlyofficeOOXMLEditableExtensions package_init) = {}"
  "dom (OnlyofficeEditableExtensions package_init)
     \<inter> dom (OnlyofficeDataLossEditableExtensions package_init) = {}"
  "dom (OnlyofficeEditableExtensions package_init)
     \<inter> dom (OnlyofficeViewOnlyExtensions package_init) = {}"
  "dom (OnlyofficeOOXMLEditableExtensions package_init)
     \<inter> dom (OnlyofficeDataLossEditableExtensions package_init) = {}"
  "dom (OnlyofficeOOXMLEditableExtensions package_init)
     \<inter> dom (OnlyofficeViewOnlyExtensions package_init) = {}"
  "dom (OnlyofficeDataLossEditableExtensions package_init)
     \<inter> dom (OnlyofficeViewOnlyExtensions package_init) = {}"
proof -
  have "distinct (map fst OnlyofficeEditableExtensions_literal
      @ map fst OnlyofficeOOXMLEditableExtensions_literal
      @ map fst OnlyofficeDataLossEditableExtensions_literal
      @ map fst OnlyofficeViewOnlyExtensions_literal)"
    using keys_distinct by (simp only: all_literals_def map_append)
  then have d:
    "fst ` set OnlyofficeEditableExtensions_literal
       \<inter> (fst ` set OnlyofficeOOXMLEditableExtensions_literal
          \<union> (fst ` set OnlyofficeDataLossEditableExtensions_literal
          \<union> fst ` set OnlyofficeViewOnlyExtensions_literal)) = {}"
    "fst ` set OnlyofficeOOXMLEditableExtensions_literal
       \<inter> (fst ` set OnlyofficeDataLossEditableExtensions_literal
          \<union> fst ` set OnlyofficeViewOnlyExtensions_literal) = {}"
    "fst ` set OnlyofficeDataLossEditableExtensions_literal
       \<inter> fst ` set OnlyofficeViewOnlyExtensions_literal = {}"
    by (simp_all only: distinct_append set_append set_map)
  show
    "dom (OnlyofficeEditableExtensions package_init)
       \<inter> dom (OnlyofficeOOXMLEditableExtensions package_init) = {}"
    "dom (OnlyofficeEditableExtensions package_init)
       \<inter> dom (OnlyofficeDataLossEditableExtensions package_init) = {}"
    "dom (OnlyofficeEditableExtensions package_init)
       \<inter> dom (OnlyofficeViewOnlyExtensions package_init) = {}"
    "dom (OnlyofficeOOXMLEditableExtensions package_init)
       \<inter> dom (OnlyofficeDataLossEditableExtensions package_init) = {}"
    "dom (OnlyofficeOOXMLEditableExtensions package_init)
       \<inter> dom (OnlyofficeViewOnlyExtensions package_init) = {}"
    "dom (OnlyofficeDataLossEditableExtensions package_init)
       \<inter> dom (OnlyofficeViewOnlyExtensions package_init) = {}"
    unfolding dom_init using d by (simp_all only: Int_Un_distrib Un_empty Int_commute)
qed

lemma in_order_None:
  "(\<forall>m \<in> set ms. m ext = None)
     \<Longrightarrow> GetFileType_in_order ms ext = ([], Some ErrOnlyofficeExtensionNotSupported)"
  by (induction ms) (auto split: option.splits)

lemma in_order_unique:
  assumes "\<forall>m \<in> set ms. \<forall>m' \<in> set ms. \<forall>v v'.
      m ext = Some v \<longrightarrow> m' ext = Some v' \<longrightarrow> v = v'"
    and "m \<in> set ms" and "m ext = Some t"
  shows "GetFileType_in_order ms ext = (t, None)"
  using assms
proof (induction ms)
  case Nil
  then show ?case by simp
next
  case (Cons a ms)
  show ?case
  proof (cases "a ext")
    case None
    with Cons.prems have "m \<in> set ms" by auto
    with Cons show ?thesis using None by simp
  next
    case (Some v)
    with Cons.prems have "v = t" by auto
    with Some show ?thesis by simp
  qed
qed

lemma in_order_set_eq:
  assumes uniq: "\<forall>m \<in> set ms. \<forall>m' \<in> set ms. \<forall>v v'.
      m ext = Some v \<longrightarrow> m' ext = Some v' \<longrightarrow> v = v'"
    and eq: "set ms' = set ms"
  shows "GetFileType_in_order ms' ext = GetFileType_in_order ms ext"
proof (cases "\<exists>m \<in> set ms. m ext \<noteq> None")
  case True
  then obtain m t where m: "m \<in> set ms" "m ext = Some t" by auto
  from uniq eq
  have uniq': "\<forall>m \<in> set ms'. \<forall>m' \<in> set ms'. \<forall>v v'.
      m ext = Some v \<longrightarrow> m' ext = Some v' \<longrightarrow> v = v'"
    by simp
  from m eq have m': "m \<in> set ms'" by simp
  from in_order_unique [OF uniq m] in_order_unique [OF uniq' m' m(2)]
  show ?thesis by simp
next
  case False
  then have "\<forall>m \<in> set ms. m ext = None" by simp
  moreover from this eq have "\<forall>m \<in> set ms'. m ext = None" by simp
  ultimately show ?thesis by (simp add: in_order_None)
qed

lemma GetFileType_as_in_order:
  "fst (GetFileType env g e) =
     GetFileType_in_order
       [OnlyofficeEditableExtensions g, OnlyofficeDataLossEditableExtensions g,
        OnlyofficeOOXMLEditableExtensions g, OnlyofficeViewOnlyExtensions g]
       (strings_ToLower env e)"
  by (simp add: GetFileType_def Let_def split: option.splits)

lemma at_most_one_map:
  assumes "m \<in> {OnlyofficeEditableExtensions package_init,
        OnlyofficeDataLossEditableExtensions package_init,
        OnlyofficeOOXMLEditableExtensions package_init,
        OnlyofficeViewOnlyExtensions package_init}"
    and "m' \<in> {OnlyofficeEditableExtensions package_init,
        OnlyofficeDataLossEditableExtensions package_init,
        OnlyofficeOOXMLEditableExtensions package_init,
        OnlyofficeViewOnlyExtensions package_init}"
    and "m k = Some v" and "m' k = Some v'"
  shows "v = v'"
proof -
  from assms(3,4) have "k \<in> dom m \<inter> dom m'" by auto
  with assms(1,2) key_sets_disjoint have "m = m'" by auto
  with assms(3,4) show ?thesis by simp
qed

text \<open>
  Claim C10. The four extension maps are pairwise disjoint: no extension string is a key
  of more than one of them. Consequently every supported extension satisfies exactly one
  of the four per-map predicates, and the value returned by \<open>GetFileType\<close> does not depend
  on the order in which the maps are consulted: consulting the four maps in any order
  \<open>ms\<close> gives the result of \<open>GetFileType\<close>.
\<close>

theorem extension_maps_disjoint:
  "dom (OnlyofficeEditableExtensions package_init)
      \<inter> dom (OnlyofficeOOXMLEditableExtensions package_init) = {}
   \<and> dom (OnlyofficeEditableExtensions package_init)
      \<inter> dom (OnlyofficeDataLossEditableExtensions package_init) = {}
   \<and> dom (OnlyofficeEditableExtensions package_init)
      \<inter> dom (OnlyofficeViewOnlyExtensions package_init) = {}
   \<and> dom (OnlyofficeOOXMLEditableExtensions package_init)
      \<inter> dom (OnlyofficeDataLossEditableExtensions package_init) = {}
   \<and> dom (OnlyofficeOOXMLEditableExtensions package_init)
      \<inter> dom (OnlyofficeViewOnlyExtensions package_init) = {}
   \<and> dom (OnlyofficeDataLossEditableExtensions package_init)
      \<inter> dom (OnlyofficeViewOnlyExtensions package_init) = {}
   \<and> (fst (IsExtensionSupported env package_init e) \<longrightarrow>
        length (filter (\<lambda>b. b)
          [fst (IsExtensionEditable env package_init e),
           fst (IsExtensionOOXMLConvertable env package_init e),
           fst (IsExtensionLossEditable env package_init e),
           fst (IsExtensionViewOnly env package_init e)]) = 1)
   \<and> (set ms = {OnlyofficeEditableExtensions package_init,
                 OnlyofficeOOXMLEditableExtensions package_init,
                 OnlyofficeDataLossEditableExtensions package_init,
                 OnlyofficeViewOnlyExtensions package_init} \<longrightarrow>
        GetFileType_in_order ms (strings_ToLower env e)
          = fst (GetFileType env package_init e))"
proof -
  let ?k = "strings_ToLower env e"
  have one: "length (filter (\<lambda>b. b)
          [fst (IsExtensionEditable env package_init e),
           fst (IsExtensionOOXMLConvertable env package_init e),
           fst (IsExtensionLossEditable env package_init e),
           fst (IsExtensionViewOnly env package_init e)]) = 1"
    if "fst (IsExtensionSupported env package_init e)"
    using that key_sets_disjoint
    by (auto simp: IsExtensionSupported_def IsExtensionEditable_def
        IsExtensionOOXMLConvertable_def IsExtensionLossEditable_def IsExtensionViewOnly_def
        Let_def disjoint_iff dom_def split: if_splits)
  have order: "GetFileType_in_order ms ?k = fst (GetFileType env package_init e)"
    if ms: "set ms = {OnlyofficeEditableExtensions package_init,
                 OnlyofficeOOXMLEditableExtensions package_init,
                 OnlyofficeDataLossEditableExtensions package_init,
                 OnlyofficeViewOnlyExtensions package_init}"
  proof -
    let ?ms0 = "[OnlyofficeEditableExtensions package_init,
        OnlyofficeDataLossEditableExtensions package_init,
        OnlyofficeOOXMLEditableExtensions package_init,
        OnlyofficeViewOnlyExtensions package_init]"
    have "\<forall>m \<in> set ?ms0. \<forall>m' \<in> set ?ms0. \<forall>v v'.
        m ?k = Some v \<longrightarrow> m' ?k = Some v' \<longrightarrow> v = v'"
      using at_most_one_map [where k = ?k] by (simp only: list.set) blast
    moreover have "set ms = set ?ms0" using ms by auto
    ultimately have "GetFileType_in_order ms ?k = GetFileType_in_order ?ms0 ?k"
      by (rule in_order_set_eq)
    then show ?thesis by (simp only: GetFileType_as_in_order)
  qed
  from one order key_sets_disjoint show ?thesis by blast
qed

theorem extension_maps_disjoint_witness:
  "fst (IsExtensionSupported example_env package_init ''DOCX'')
   \<and> length (filter (\<lambda>b. b)
          [fst (IsExtensionEditable example_env package_init ''DOCX''),
           fst (IsExtensionOOXMLConvertable example_env package_init ''DOCX''),
           fst (IsExtensionLossEditable example_env package_init ''DOCX''),
           fst (IsExtensionViewOnly example_env package_init ''DOCX'')]) = 1
   \<and> GetFileType_in_order
         [OnlyofficeViewOnlyExtensions package_init,
          OnlyofficeOOXMLEditableExtensions package_init,
          OnlyofficeDataLossEditableExtensions package_init,
          OnlyofficeEditableExtensions package_init]
         (strings_ToLower example_env ''DOCX'')
       = fst (GetFileType example_env package_init ''DOCX'')"
proof -
  have sup: "fst (IsExtensionSupported example_env package_init ''DOCX'')"
    using docx_is_key by (auto simp: IsExtensionSupported_def ToLower_DOCX Let_def)
  have perm: "set [OnlyofficeViewOnlyExtensions package_init,
          OnlyofficeOOXMLEditableExtensions package_init,
          OnlyofficeDataLossEditableExtensions package_init,
          OnlyofficeEditableExtensions package_init]
      = {OnlyofficeEditableExtensions package_init,
         OnlyofficeOOXMLEditableExtensions package_init,
         OnlyofficeDataLossEditableExtensions package_init,
         OnlyofficeViewOnlyExtensions package_init}"
    by auto
  from sup perm
    extension_maps_disjoint [of example_env "''DOCX''"
      "[OnlyofficeViewOnlyExtensions package_init,
        OnlyofficeOOXMLEditableExtensions package_init,
        OnlyofficeDataLossEditableExtensions package_init,
        OnlyofficeEditableExtensions package_init]"]
  show ?thesis by blast
qed

subsection \<open>Replacing one byte\<close>

lemma replace_byte:
  "replace_from_left [a] new s = concat (map (\<lambda>c. if c = a then new else [c]) s)"
proof (induction s)
  case Nil
  show ?case by (simp add: replace_from_left.simps)
next
  case (Cons c s)
  show ?case
    by (subst replace_from_left.simps) (simp add: Cons.IH)
qed

lemma replace_byte_absent:
  "a \<notin> set s \<Longrightarrow> concat (map (\<lambda>c. if c = a then new else [c]) s) = s"
  by (induction s) auto

lemma ReplaceAll_byte:
  "strings_ReplaceAll s [a] [b] = map (\<lambda>c. if c = a then b else c) s"
proof (cases "a = b")
  case True
  then show ?thesis by (simp add: strings_ReplaceAll_def map_idI)
next
  case False
  have "concat (map (\<lambda>c. if c = a then [b] else [c]) s)
      = map (\<lambda>c. if c = a then b else c) s"
    by (induction s) auto
  with False show ?thesis by (simp add: strings_ReplaceAll_def replace_byte)
qed

subsection \<open>File name and extension\<close>

lemma Ext_loop_shape:
  assumes "n \<le> length path" and "Ext_loop env path n \<noteq> []"
  shows "\<exists>i < n. Ext_loop env path n = drop i path \<and> path ! i = CHR ''.''
           \<and> (\<forall>j. i < j \<and> j < n \<longrightarrow> path ! j \<noteq> CHR ''.'')"
  using assms
proof (induction n)
  case 0
  then show ?case by simp
next
  case (Suc n)
  show ?case
  proof (cases "os_IsPathSeparator env (path ! n)")
    case True
    with Suc.prems show ?thesis by simp
  next
    case sep: False
    show ?thesis
    proof (cases "path ! n = CHR ''.''")
      case True
      with sep have "Ext_loop env path (Suc n) = drop n path" by simp
      with True show ?thesis by auto
    next
      case False
      with sep have eq: "Ext_loop env path (Suc n) = Ext_loop env path n" by simp
      with Suc.prems have "n \<le> length path" "Ext_loop env path n \<noteq> []" by simp_all
      from Suc.IH [OF this] obtain i where i: "i < n" "Ext_loop env path n = drop i path"
        "path ! i = CHR ''.''" "\<forall>j. i < j \<and> j < n \<longrightarrow> path ! j \<noteq> CHR ''.''" by blast
      have "\<forall>j. i < j \<and> j < Suc n \<longrightarrow> path ! j \<noteq> CHR ''.''"
        using i(4) False by (auto simp: less_Suc_eq)
      with i eq show ?thesis by (intro exI [of _ i]) auto
    qed
  qed
qed

lemma Ext_split:
  assumes "filepath_Ext env path \<noteq> []"
  shows "\<exists>i < length path. filepath_Ext env path = CHR ''.'' # drop (Suc i) path
           \<and> take i path @ CHR ''.'' # drop (Suc i) path = path
           \<and> CHR ''.'' \<notin> set (drop (Suc i) path)"
proof -
  from assms have "Ext_loop env path (length path) \<noteq> []" by (simp add: filepath_Ext_def)
  from Ext_loop_shape [OF le_refl this]
  obtain i where i: "i < length path" "filepath_Ext env path = drop i path"
    "path ! i = CHR ''.''" "\<forall>j. i < j \<and> j < length path \<longrightarrow> path ! j \<noteq> CHR ''.''"
    by (auto simp: filepath_Ext_def)
  from i(1,3) have d: "drop i path = CHR ''.'' # drop (Suc i) path"
    by (simp add: Cons_nth_drop_Suc [symmetric])
  have "CHR ''.'' \<notin> set (drop (Suc i) path)"
  proof
    assume "CHR ''.'' \<in> set (drop (Suc i) path)"
    then obtain k where "k < length path - Suc i" "drop (Suc i) path ! k = CHR ''.''"
      by (auto simp: in_set_conv_nth)
    then have "Suc i + k < length path" "path ! (Suc i + k) = CHR ''.''" by auto
    with i(4) show False by auto
  qed
  moreover have "take i path @ CHR ''.'' # drop (Suc i) path = path"
    using d by (metis append_take_drop_id)
  ultimately show ?thesis using i(1,2) d by auto
qed

text \<open>
  Claim C7. For every file name whose final path element contains a dot, that is, for
  which \<open>filepath.Ext\<close> is not empty, \<open>GetFilenameWithoutExtension(filename)\<close> followed by
  a dot and by \<open>GetFileExt(filename)\<close> is the file name again.
\<close>

theorem name_dot_ext:
  assumes "filepath_Ext env filename \<noteq> []"
  shows "fst (GetFilenameWithoutExtension env g filename) @ ''.''
           @ fst (GetFileExt env g filename) = filename"
proof -
  from Ext_split [OF assms] obtain i where i: "i < length filename"
    "filepath_Ext env filename = CHR ''.'' # drop (Suc i) filename"
    "take i filename @ CHR ''.'' # drop (Suc i) filename = filename"
    "CHR ''.'' \<notin> set (drop (Suc i) filename)" by blast
  let ?rest = "drop (Suc i) filename"
  have "drop i filename = CHR ''.'' # ?rest"
    using i(1,3) by (metis append_eq_conv_conj length_take min.absorb2 less_imp_le_nat)
  then have trim: "strings_TrimSuffix filename (CHR ''.'' # ?rest) = take i filename"
    using i(1) by (simp add: strings_TrimSuffix_def del: drop_Suc_Cons)
  have "concat (map (\<lambda>c. if c = CHR ''.'' then [] else [c]) ?rest) = ?rest"
    using i(4) by (rule replace_byte_absent)
  then have ext: "strings_ReplaceAll (CHR ''.'' # ?rest) ''.'' [] = ?rest"
    by (simp add: strings_ReplaceAll_def replace_byte)
  show ?thesis
    using i(3) by (simp add: GetFilenameWithoutExtension_def GetFileExt_def i(2) trim ext)
qed

theorem name_dot_ext_witness:
  "filepath_Ext example_env ''a.b/c.d.docx'' = ''.docx''
   \<and> fst (GetFilenameWithoutExtension example_env package_init ''a.b/c.d.docx'') @ ''.''
       @ fst (GetFileExt example_env package_init ''a.b/c.d.docx'') = ''a.b/c.d.docx''"
proof -
  have ext: "filepath_Ext example_env ''a.b/c.d.docx'' = ''.docx''"
    by (simp add: filepath_Ext_def os_IsPathSeparator_def example_env_def)
  then have "filepath_Ext example_env ''a.b/c.d.docx'' \<noteq> []" by simp
  from ext name_dot_ext [OF this, of package_init] show ?thesis by simp
qed

subsection \<open>Escaping a file name\<close>

lemma EscapeFilename_map:
  "fst (EscapeFilename env g filename) = map escape_byte filename"
  by (simp add: EscapeFilename_def ReplaceAll_byte escape_byte_def Let_def)

text \<open>
  Claim C8. For every file name, \<open>EscapeFilename\<close> returns the string in which every
  backslash and every slash is replaced by a colon and every other byte is unchanged.
  So the result is as long as the input, it contains neither a slash nor a backslash,
  \<open>EscapeFilename\<close> is idempotent, and the empty string gives the empty string.
\<close>

theorem EscapeFilename_replaces:
  "fst (EscapeFilename env g filename) = map escape_byte filename
   \<and> length (fst (EscapeFilename env g filename)) = length filename
   \<and> CHR ''/'' \<notin> set (fst (EscapeFilename env g filename))
   \<and> CHR 0x5C \<notin> set (fst (EscapeFilename env g filename))
   \<and> fst (EscapeFilename env g (fst (EscapeFilename env g filename)))
       = fst (EscapeFilename env g filename)
   \<and> fst (EscapeFilename env g []) = []"
  by (auto simp: EscapeFilename_map escape_byte_def)

subsection \<open>The package state\<close>

lemma methods_keep_globals:
  "snd (ValidateFileSize env g http_Head limit url) = g"
  "snd (EscapeFilename env g filename) = g"
  "snd (IsExtensionSupported env g fileExt) = g"
  "snd (IsExtensionEditable env g fileExt) = g"
  "snd (IsExtensionViewOnly env g fileExt) = g"
  "snd (IsExtensionLossEditable env g fileExt) = g"
  "snd (IsExtensionOOXMLConvertable env g fileExt) = g"
  "snd (GetFilenameWithoutExtension env g filename) = g"
  "snd (GetFileType env g fileExt) = g"
  "snd (GetFileExt env g filename) = g"
  by (simp_all add: ValidateFileSize_def EscapeFilename_def IsExtensionSupported_def
      IsExtensionEditable_def IsExtensionViewOnly_def IsExtensionLossEditable_def
      IsExtensionOOXMLConvertable_def GetFilenameWithoutExtension_def GetFileType_def
      GetFileExt_def Let_def split: sum.splits option.splits prod.splits)

lemma invoke_keeps_globals: "snd (invoke env g c) = g"
  by (cases c) (simp_all add: methods_keep_globals)

text \<open>
  Claim C9. No operation of the file utility changes the four extension maps: the package
  state after a call is the state before it. So in any sequence of calls every call
  returns what it returns in the state the sequence started in: equal calls give equal
  results, wherever they stand. The response to the HEAD request is an argument of the
  call of \<open>ValidateFileSize\<close>; the request itself is outside the model.
\<close>

theorem calls_keep_state:
  "snd (invoke env g c) = g
   \<and> run_calls env g cs = (map (\<lambda>c. fst (invoke env g c)) cs, g)"
proof -
  have "run_calls env g cs = (map (\<lambda>c. fst (invoke env g c)) cs, g)"
  proof (induction cs)
    case Nil
    show ?case by simp
  next
    case (Cons c cs)
    obtain out where "invoke env g c = (out, g)"
      using invoke_keeps_globals [of env g c] by (cases "invoke env g c") simp
    with Cons show ?case by simp
  qed
  with invoke_keeps_globals show ?thesis by simp
qed

subsection \<open>Parsing the content length\<close>

lemma decimal_value_ge: "n \<le> decimal_value n cs"
proof (induction cs arbitrary: n)
  case Nil
  show ?case by simp
next
  case (Cons c cs)
  have "n \<le> n * 10 + (of_char c - of_char CHR ''0'')" by simp
  also have "\<dots> \<le> decimal_value (n * 10 + (of_char c - of_char CHR ''0'')) cs" by (rule Cons.IH)
  finally show ?case by simp
qed

lemma ParseUint_loop_step:
  assumes mv: "maxVal < 2 ^ 64" and d: "d \<le> (9::nat)"
  shows "(\<not> maxUint64 div 10 + 1 \<le> n \<and> \<not> ((n * 10 mod 2 ^ 64 + d) mod 2 ^ 64 < n * 10 mod 2 ^ 64
            \<or> maxVal < (n * 10 mod 2 ^ 64 + d) mod 2 ^ 64))
         = (n * 10 + d \<le> maxVal)"
    and "n * 10 + d \<le> maxVal \<Longrightarrow> (n * 10 mod 2 ^ 64 + d) mod 2 ^ 64 = n * 10 + d"
proof -
  have W: "(2::nat) ^ 64 = 18446744073709551616" by simp
  show "(\<not> maxUint64 div 10 + 1 \<le> n \<and> \<not> ((n * 10 mod 2 ^ 64 + d) mod 2 ^ 64 < n * 10 mod 2 ^ 64
            \<or> maxVal < (n * 10 mod 2 ^ 64 + d) mod 2 ^ 64))
         = (n * 10 + d \<le> maxVal)"
  proof (cases "n * 10 + d < 2 ^ 64")
    case True
    then have "n * 10 < 2 ^ 64" by simp
    with True have "n * 10 mod 2 ^ 64 = n * 10" "(n * 10 + d) mod 2 ^ 64 = n * 10 + d" by simp_all
    moreover from \<open>n * 10 < 2 ^ 64\<close> have "\<not> maxUint64 div 10 + 1 \<le> n"
      unfolding maxUint64_def W by simp
    ultimately show ?thesis by auto
  next
    case False
    with mv have nle: "\<not> n * 10 + d \<le> maxVal" by simp
    show ?thesis
    proof (cases "maxUint64 div 10 + 1 \<le> n")
      case True
      with nle show ?thesis by simp
    next
      case c: False
      then have lt: "n * 10 < 2 ^ 64" unfolding maxUint64_def W by simp
      then have m: "n * 10 mod 2 ^ 64 = n * 10" by simp
      from False d lt have "(n * 10 + d) mod 2 ^ 64 = n * 10 + d - 2 ^ 64"
        unfolding W by (simp add: mod_if)
      with False d have "(n * 10 + d) mod 2 ^ 64 < n * 10" unfolding W by simp
      with m nle show ?thesis by simp
    qed
  qed
  show "(n * 10 mod 2 ^ 64 + d) mod 2 ^ 64 = n * 10 + d" if "n * 10 + d \<le> maxVal"
  proof -
    from that mv have "n * 10 + d < 2 ^ 64" by simp
    then have "n * 10 < 2 ^ 64" by simp
    with \<open>n * 10 + d < 2 ^ 64\<close> show ?thesis by simp
  qed
qed

lemma ParseUint_loop_nondigit:
  "\<not> isDigit c \<Longrightarrow> ParseUint_loop maxVal n (c # cs) = (0, Some ErrSyntax)"
  by (auto simp: isDigit_def)

lemma ParseUint_loop_digit:
  "isDigit c \<Longrightarrow> ParseUint_loop maxVal n (c # cs) =
     (if maxUint64 div 10 + 1 \<le> n
          \<or> (n * 10 mod 2 ^ 64 + (of_char c - of_char CHR ''0'')) mod 2 ^ 64 < n * 10 mod 2 ^ 64
          \<or> maxVal < (n * 10 mod 2 ^ 64 + (of_char c - of_char CHR ''0'')) mod 2 ^ 64
      then (maxVal, Some ErrRange)
      else ParseUint_loop maxVal
             ((n * 10 mod 2 ^ 64 + (of_char c - of_char CHR ''0'')) mod 2 ^ 64) cs)"
  by (simp add: isDigit_def Let_def)

lemma ParseUint_loop_ok:
  assumes mv: "maxVal < 2 ^ 64"
  shows "ParseUint_loop maxVal n cs = (v, None)
           \<longleftrightarrow> list_all isDigit cs \<and> decimal_value n cs = v \<and> (cs \<noteq> [] \<longrightarrow> v \<le> maxVal)"
proof (induction cs arbitrary: n)
  case Nil
  show ?case by auto
next
  case (Cons c cs)
  show ?case
  proof (cases "isDigit c")
    case False
    then show ?thesis by (simp add: ParseUint_loop_nondigit del: ParseUint_loop.simps)
  next
    case True
    define d :: nat where "d = of_char c - of_char CHR ''0''"
    from True have d: "d \<le> 9" by (simp add: isDigit_def d_def; arith)
    note step = ParseUint_loop_step [OF mv d, of n]
    show ?thesis
    proof (cases "n * 10 + d \<le> maxVal")
      case le: True
      with step have ok: "\<not> maxUint64 div 10 + 1 \<le> n"
        "\<not> ((n * 10 mod 2 ^ 64 + d) mod 2 ^ 64 < n * 10 mod 2 ^ 64
            \<or> maxVal < (n * 10 mod 2 ^ 64 + d) mod 2 ^ 64)"
        "(n * 10 mod 2 ^ 64 + d) mod 2 ^ 64 = n * 10 + d" by blast+
      have "ParseUint_loop maxVal n (c # cs) = ParseUint_loop maxVal (n * 10 + d) cs"
        using ok unfolding ParseUint_loop_digit [OF True] d_def by simp
      moreover have "decimal_value (n * 10 + d) cs = v \<Longrightarrow> cs = [] \<Longrightarrow> v \<le> maxVal"
        using le by auto
      ultimately show ?thesis using True Cons.IH [of "n * 10 + d"]
        by (auto simp: d_def simp del: ParseUint_loop.simps)
    next
      case nle: False
      with step(1) have "maxUint64 div 10 + 1 \<le> n \<or> ((n * 10 mod 2 ^ 64 + d) mod 2 ^ 64 < n * 10 mod 2 ^ 64
            \<or> maxVal < (n * 10 mod 2 ^ 64 + d) mod 2 ^ 64)" by blast
      then have "ParseUint_loop maxVal n (c # cs) = (maxVal, Some ErrRange)"
        unfolding ParseUint_loop_digit [OF True] d_def by simp
      moreover have "\<not> decimal_value (n * 10 + d) cs \<le> maxVal"
        using decimal_value_ge [of "n * 10 + d" cs] nle by simp
      ultimately show ?thesis by (simp add: d_def del: ParseUint_loop.simps)
    qed
  qed
qed

lemma ParseUint_loop_err:
  "ParseUint_loop maxVal n cs = (v, Some e)
     \<Longrightarrow> (e = ErrSyntax \<and> v = 0) \<or> (e = ErrRange \<and> v = maxVal)"
  by (induction cs arbitrary: n) (auto simp: Let_def split: if_splits)

lemma ParseUint_unfold:
  assumes "IntSize env \<in> {32, 64}"
  shows "strconv_ParseUint env s =
           (if s = [] then (0, Some ErrSyntax)
            else ParseUint_loop (2 ^ IntSize env - 1) 0 s)"
  using assms by (auto simp: strconv_ParseUint_def Let_def simp del: ParseUint_loop.simps)

lemma ParseInt_unfold:
  assumes "IntSize env \<in> {32, 64}" and "s \<noteq> []"
    and "strconv_ParseUint env (if hd s = CHR ''+'' \<or> hd s = CHR ''-'' then tl s else s)
           = (un, err)"
  shows "strconv_ParseInt env s =
           (if err \<noteq> None \<and> err \<noteq> Some ErrRange then (0, err)
            else if hd s \<noteq> CHR ''-'' \<and> 2 ^ (IntSize env - 1) \<le> un
              then (int (2 ^ (IntSize env - 1)) - 1, Some ErrRange)
            else if hd s = CHR ''-'' \<and> 2 ^ (IntSize env - 1) < un
              then (- int (2 ^ (IntSize env - 1)), Some ErrRange)
            else (if hd s = CHR ''-'' then - int un else int un, None))"
  using assms by (auto simp: strconv_ParseInt_def Let_def)

lemma IntSize_bounds:
  assumes "IntSize env \<in> {32, 64}"
  shows "(2 ^ IntSize env - 1 :: nat) < 2 ^ 64"
    and "(2 ^ (IntSize env - 1) :: nat) < 2 ^ IntSize env - 1"
  using assms by auto

lemma ParseUint_ok:
  assumes "IntSize env \<in> {32, 64}"
  shows "strconv_ParseUint env s = (un, None)
           \<longleftrightarrow> s \<noteq> [] \<and> list_all isDigit s \<and> decimal_value 0 s = un
               \<and> un \<le> 2 ^ IntSize env - 1"
  unfolding ParseUint_unfold [OF assms]
  using ParseUint_loop_ok [OF IntSize_bounds(1) [OF assms], of 0 s un]
  by (cases "s = []") (simp_all del: ParseUint_loop.simps)

lemma ParseUint_err:
  assumes "IntSize env \<in> {32, 64}" and "strconv_ParseUint env s = (un, Some e)"
  shows "(e = ErrSyntax \<and> un = 0) \<or> (e = ErrRange \<and> un = 2 ^ IntSize env - 1)"
proof (cases "s = []")
  case True
  with assms(2) show ?thesis by (simp add: strconv_ParseUint_def)
next
  case False
  with assms(2) have "ParseUint_loop (2 ^ IntSize env - 1) 0 s = (un, Some e)"
    unfolding ParseUint_unfold [OF assms(1)] by (simp del: ParseUint_loop.simps)
  then show ?thesis by (rule ParseUint_loop_err)
qed

lemma ParseInt_base10:
  assumes b: "IntSize env \<in> {32, 64}"
  shows "(base10_int env s = Some v \<longrightarrow> strconv_ParseInt env s = (v, None))
         \<and> (base10_int env s = None \<longrightarrow> snd (strconv_ParseInt env s) \<noteq> None)"
proof (cases "s = []")
  case True
  then show ?thesis by (simp add: strconv_ParseInt_def base10_int_def)
next
  case ne: False
  define neg where "neg = (hd s = CHR ''-'')"
  define s' where "s' = (if hd s = CHR ''+'' \<or> hd s = CHR ''-'' then tl s else s)"
  define C :: nat where "C = 2 ^ (IntSize env - 1)"
  define M :: nat where "M = 2 ^ IntSize env - 1"
  define dv where "dv = decimal_value 0 s'"
  have CM: "C < M" "0 < C" unfolding C_def M_def
    using IntSize_bounds(2) [OF b] by simp_all
  obtain un err where pu: "strconv_ParseUint env s' = (un, err)"
    by (cases "strconv_ParseUint env s'")
  have pi: "strconv_ParseInt env s =
      (if err \<noteq> None \<and> err \<noteq> Some ErrRange then (0, err)
       else if \<not> neg \<and> C \<le> un then (int C - 1, Some ErrRange)
       else if neg \<and> C < un then (- int C, Some ErrRange)
       else (if neg then - int un else int un, None))"
    unfolding neg_def C_def
    using ParseInt_unfold [OF b ne pu [unfolded s'_def]] by simp
  have b10: "base10_int env s =
      (if s' \<noteq> [] \<and> list_all isDigit s'
          \<and> - int C \<le> (if neg then - int dv else int dv)
          \<and> (if neg then - int dv else int dv) < int C
       then Some (if neg then - int dv else int dv)
       else None)"
    using ne unfolding base10_int_def neg_def s'_def C_def dv_def by (simp add: Let_def)
  show ?thesis
  proof (cases err)
    case None
    with pu ParseUint_ok [OF b, of s' un]
    have ok: "s' \<noteq> []" "list_all isDigit s'" "dv = un" "un \<le> M"
      by (simp_all add: M_def dv_def)
    show ?thesis unfolding pi b10 using None ok CM by auto
  next
    case (Some e)
    from ParseUint_err [OF b pu [unfolded Some]]
    have e: "(e = ErrSyntax \<and> un = 0) \<or> (e = ErrRange \<and> un = M)" by (simp add: M_def)
    have "\<not> (s' \<noteq> [] \<and> list_all isDigit s' \<and> dv \<le> M)"
      using ParseUint_ok [OF b, of s' dv] pu Some by (simp add: M_def dv_def)
    then have none: "base10_int env s = None"
      unfolding b10 using CM by auto
    show ?thesis unfolding pi none using Some e CM by auto
  qed
qed

lemma base10_int_100: "base10_int example_env ''100'' = Some 100"
  by (simp add: base10_int_def isDigit_def example_env_def)

lemma base10_int_empty: "base10_int env [] = None"
  by (simp add: base10_int_def)

text \<open>
  Claim C6. With the response to the HEAD request as an input: when the request succeeds,
  \<open>ValidateFileSize\<close> returns \<open>nil\<close> if and only if the value of the
  \<open>Content-Length\<close> header parses as a base-10 integer that is at most \<open>limit\<close> (a value
  equal to \<open>limit\<close> passes); when the parsed value exceeds \<open>limit\<close>, or the header is
  missing, empty or does not parse as an integer, it returns \<open>ErrInvalidContentLength\<close>.
\<close>

theorem ValidateFileSize_content_length:
  assumes "IntSize env \<in> {32, 64}" and "http_Head url = Inr resp"
  shows "fst (ValidateFileSize env g http_Head limit url) =
           (case base10_int env (Header_Get (Header resp) ''Content-Length'') of
              Some v \<Rightarrow> if v \<le> limit then None else Some ErrInvalidContentLength
            | None \<Rightarrow> Some ErrInvalidContentLength)
         \<and> (Header resp ''Content-Length'' = None \<or> Header resp ''Content-Length'' = Some []
              \<or> Header_Get (Header resp) ''Content-Length'' = []
            \<longrightarrow> fst (ValidateFileSize env g http_Head limit url)
                  = Some ErrInvalidContentLength)"
proof -
  let ?h = "Header_Get (Header resp) ''Content-Length''"
  obtain val err where p: "strconv_ParseInt env ?h = (val, err)"
    by (cases "strconv_ParseInt env ?h")
  have v: "fst (ValidateFileSize env g http_Head limit url) =
      (if limit < val \<or> err \<noteq> None then Some ErrInvalidContentLength else None)"
    using assms(2) p by (simp add: ValidateFileSize_def)
  have main: "fst (ValidateFileSize env g http_Head limit url) =
           (case base10_int env ?h of
              Some v \<Rightarrow> if v \<le> limit then None else Some ErrInvalidContentLength
            | None \<Rightarrow> Some ErrInvalidContentLength)"
  proof (cases "base10_int env ?h")
    case None
    with ParseInt_base10 [OF assms(1), of ?h] p have "err \<noteq> None" by simp
    with v None show ?thesis by simp
  next
    case (Some w)
    with ParseInt_base10 [OF assms(1), of ?h w] p have "val = w" "err = None" by simp_all
    with v Some show ?thesis by auto
  qed
  have "?h = []"
    if "Header resp ''Content-Length'' = None \<or> Header resp ''Content-Length'' = Some []
        \<or> ?h = []"
    using that by (auto simp: Header_Get_def)
  with main show ?thesis by (auto simp: base10_int_empty)
qed

theorem ValidateFileSize_content_length_witness:
  "IntSize example_env \<in> {32, 64}
   \<and> fst (ValidateFileSize example_env package_init
          (\<lambda>u. Inr \<lparr>Header = [''Content-Length'' \<mapsto> [''100'']]\<rparr>) 100 ''http://host/f'')
       = None
   \<and> fst (ValidateFileSize example_env package_init
          (\<lambda>u. Inr \<lparr>Header = [''Content-Length'' \<mapsto> [''100'']]\<rparr>) 99 ''http://host/f'')
       = Some ErrInvalidContentLength
   \<and> fst (ValidateFileSize example_env package_init
          (\<lambda>u. Inr \<lparr>Header = Map.empty\<rparr>) 100 ''http://host/f'')
       = Some ErrInvalidContentLength"
proof -
  have b: "IntSize example_env \<in> {32, 64}" by (simp add: example_env_def)
  have h: "Header_Get [''Content-Length'' \<mapsto> [''100'']] ''Content-Length'' = ''100''"
    by (simp add: Header_Get_def)
  have "fst (ValidateFileSize example_env package_init
          (\<lambda>u. Inr \<lparr>Header = [''Content-Length'' \<mapsto> [''100'']]\<rparr>) limit ''http://host/f'')
       = (if 100 \<le> limit then None else Some ErrInvalidContentLength)" for limit
    using ValidateFileSize_content_length [OF b, of
        "\<lambda>u. Inr \<lparr>Header = [''Content-Length'' \<mapsto> [''100'']]\<rparr>" "''http://host/f''"
        "\<lparr>Header = [''Content-Length'' \<mapsto> [''100'']]\<rparr>" package_init limit]
    by (simp add: h base10_int_100)
  from this [of 100] this [of 99]
  have "fst (ValidateFileSize example_env package_init
          (\<lambda>u. Inr \<lparr>Header = [''Content-Length'' \<mapsto> [''100'']]\<rparr>) 100 ''http://host/f'')
       = None"
    "fst (ValidateFileSize example_env package_init
          (\<lambda>u. Inr \<lparr>Header = [''Content-Length'' \<mapsto> [''100'']]\<rparr>) 99 ''http://host/f'')
       = Some ErrInvalidContentLength"
    by simp_all
  moreover have "fst (ValidateFileSize example_env package_init
          (\<lambda>u. Inr \<lparr>Header = Map.empty\<rparr>) 100 ''http://host/f'')
       = Some ErrInvalidContentLength"
  proof -
    have missing: "Header \<lparr>Header = Map.empty\<rparr> ''Content-Length'' = None" by simp
    have head: "(\<lambda>u. Inr \<lparr>Header = Map.empty\<rparr> :: error + Response) ''http://host/f''
        = Inr \<lparr>Header = Map.empty\<rparr>" by simp
    from ValidateFileSize_content_length [OF b head, of package_init 100] missing
    show ?thesis by blast
  qed
  ultimately show ?thesis using b by simp
qed

subsection \<open>UTF-8: decoding what was encoded\<close>

lemma byte_char_of: "0 \<le> x \<Longrightarrow> x < 256 \<Longrightarrow> byte (char_of x) = x"
  by simp

lemma mod_shift:
  fixes q :: int
  assumes "0 \<le> q" "q < m" "k mod m = 0"
  shows "(k + q) mod m = q"
proof -
  have "(k + q) mod m = (k mod m + q mod m) mod m" by (simp add: mod_add_eq)
  also have "\<dots> = q mod m" using assms(3) by simp
  also have "\<dots> = q" using assms(1,2) by simp
  finally show ?thesis .
qed

lemma decode_bytes1:
  assumes "0 \<le> s0" "s0 < 0x80"
  shows "utf8_DecodeRuneInString (char_of s0 # rest) = (s0, 1)"
proof -
  have b: "byte (char_of s0) = s0" using assms by (simp add: byte_char_of)
  show ?thesis
    unfolding utf8_DecodeRuneInString_def Let_def
    using assms by (simp add: b RuneSelf_def del: of_char_of)
qed

lemma decode_bytes2:
  assumes "0x80 \<le> s0" "s0 < 256" "utf8_first s0 = Some (2, lo, hi)"
    and "0 \<le> s1" "s1 < 256" "lo \<le> s1" "s1 \<le> hi"
  shows "utf8_DecodeRuneInString (char_of s0 # char_of s1 # rest)
           = (s0 mod 32 * 64 + s1 mod 64, 2)"
proof -
  have b: "byte (char_of s0) = s0" "byte (char_of s1) = s1"
    using assms by (simp_all add: byte_char_of)
  show ?thesis
    unfolding utf8_DecodeRuneInString_def Let_def
    using assms by (simp add: b RuneSelf_def del: of_char_of)
qed

lemma decode_bytes3:
  assumes "0x80 \<le> s0" "s0 < 256" "utf8_first s0 = Some (3, lo, hi)"
    and "0 \<le> s1" "s1 < 256" "lo \<le> s1" "s1 \<le> hi"
    and "0x80 \<le> s2" "s2 \<le> 0xBF"
  shows "utf8_DecodeRuneInString (char_of s0 # char_of s1 # char_of s2 # rest)
           = (s0 mod 16 * 4096 + s1 mod 64 * 64 + s2 mod 64, 3)"
proof -
  have b: "byte (char_of s0) = s0" "byte (char_of s1) = s1" "byte (char_of s2) = s2"
    using assms by (simp_all add: byte_char_of)
  show ?thesis
    unfolding utf8_DecodeRuneInString_def Let_def
    using assms by (simp add: b RuneSelf_def del: of_char_of)
qed

lemma decode_bytes4:
  assumes "0x80 \<le> s0" "s0 < 256" "utf8_first s0 = Some (4, lo, hi)"
    and "0 \<le> s1" "s1 < 256" "lo \<le> s1" "s1 \<le> hi"
    and "0x80 \<le> s2" "s2 \<le> 0xBF" and "0x80 \<le> s3" "s3 \<le> 0xBF"
  shows "utf8_DecodeRuneInString (char_of s0 # char_of s1 # char_of s2 # char_of s3 # rest)
           = (s0 mod 8 * 262144 + s1 mod 64 * 4096 + s2 mod 64 * 64 + s3 mod 64, 4)"
proof -
  have b: "byte (char_of s0) = s0" "byte (char_of s1) = s1" "byte (char_of s2) = s2"
    "byte (char_of s3) = s3"
    using assms by (simp_all add: byte_char_of)
  show ?thesis
    unfolding utf8_DecodeRuneInString_def Let_def
    using assms by (simp add: b RuneSelf_def del: of_char_of)
qed

lemma decode_encode2:
  assumes "0x80 \<le> r" "r \<le> 0x7FF"
  shows "utf8_DecodeRuneInString (char_of (0xC0 + r div 64) # char_of (0x80 + r mod 64) # rest)
           = (r, 2)"
proof -
  define q where "q = r div 64"
  define m where "m = r mod 64"
  have q: "2 \<le> q" "q \<le> 31" using assms unfolding q_def by simp_all
  have m: "0 \<le> m" "m < 64" unfolding m_def by simp_all
  have r: "r = q * 64 + m" unfolding q_def m_def by simp
  have f: "utf8_first (0xC0 + q) = Some (2, 0x80, 0xBF)"
    using q by (simp add: utf8_first_def)
  have v0: "(0xC0 + q) mod 32 = q" using q by (intro mod_shift) simp_all
  have v1: "(0x80 + m) mod 64 = m" using m by (intro mod_shift) simp_all
  have "utf8_DecodeRuneInString (char_of (0xC0 + q) # char_of (0x80 + m) # rest)
      = ((0xC0 + q) mod 32 * 64 + (0x80 + m) mod 64, 2)"
    using q m by (intro decode_bytes2 [OF _ _ f]) simp_all
  then show ?thesis unfolding v0 v1 r [symmetric] unfolding q_def m_def .
qed

lemma decode_encode3:
  assumes "0x800 \<le> r" "r \<le> 0xFFFF" "\<not> (0xD800 \<le> r \<and> r \<le> 0xDFFF)"
  shows "utf8_DecodeRuneInString
           (char_of (0xE0 + r div 4096) # char_of (0x80 + r div 64 mod 64)
              # char_of (0x80 + r mod 64) # rest)
           = (r, 3)"
proof -
  define a where "a = r div 4096"
  define b where "b = r div 64 mod 64"
  define c where "c = r mod 64"
  have a: "0 \<le> a" "a \<le> 15" using assms unfolding a_def by simp_all
  have b: "0 \<le> b" "b < 64" unfolding b_def by simp_all
  have c: "0 \<le> c" "c < 64" unfolding c_def by simp_all
  have "r div 64 div 64 = a" unfolding a_def by (simp add: zdiv_zmult2_eq)
  then have "r div 64 = a * 64 + b" unfolding b_def
    using div_mult_mod_eq [of "r div 64" 64] by simp
  then have r: "r = a * 4096 + b * 64 + c" unfolding c_def
    using div_mult_mod_eq [of r 64] by simp
  have "\<exists>lo hi. utf8_first (0xE0 + a) = Some (3, lo, hi) \<and> lo \<le> 0x80 + b \<and> 0x80 + b \<le> hi"
    using a b c assms unfolding r utf8_first_def by auto
  then obtain lo hi where f: "utf8_first (0xE0 + a) = Some (3, lo, hi)"
    and lh: "lo \<le> 0x80 + b" "0x80 + b \<le> hi" by blast
  have v0: "(0xE0 + a) mod 16 = a" using a by (intro mod_shift) simp_all
  have v1: "(0x80 + b) mod 64 = b" using b by (intro mod_shift) simp_all
  have v2: "(0x80 + c) mod 64 = c" using c by (intro mod_shift) simp_all
  have "utf8_DecodeRuneInString
      (char_of (0xE0 + a) # char_of (0x80 + b) # char_of (0x80 + c) # rest)
      = ((0xE0 + a) mod 16 * 4096 + (0x80 + b) mod 64 * 64 + (0x80 + c) mod 64, 3)"
    using a b c lh by (intro decode_bytes3 [OF _ _ f]) simp_all
  then show ?thesis unfolding v0 v1 v2 r [symmetric] unfolding a_def b_def c_def .
qed

lemma decode_encode4:
  assumes "0x10000 \<le> r" "r \<le> 0x10FFFF"
  shows "utf8_DecodeRuneInString
           (char_of (0xF0 + r div 262144) # char_of (0x80 + r div 4096 mod 64)
              # char_of (0x80 + r div 64 mod 64) # char_of (0x80 + r mod 64) # rest)
           = (r, 4)"
proof -
  define a where "a = r div 262144"
  define b where "b = r div 4096 mod 64"
  define c where "c = r div 64 mod 64"
  define d where "d = r mod 64"
  have a: "0 \<le> a" "a \<le> 4" using assms unfolding a_def by simp_all
  have b: "0 \<le> b" "b < 64" unfolding b_def by simp_all
  have c: "0 \<le> c" "c < 64" unfolding c_def by simp_all
  have d: "0 \<le> d" "d < 64" unfolding d_def by simp_all
  have "r div 4096 div 64 = a" unfolding a_def by (simp add: zdiv_zmult2_eq)
  then have r1: "r div 4096 = a * 64 + b" unfolding b_def
    using div_mult_mod_eq [of "r div 4096" 64] by simp
  have "r div 64 div 64 = r div 4096" by (simp add: zdiv_zmult2_eq)
  then have "r div 64 = (a * 64 + b) * 64 + c" unfolding c_def r1 [symmetric]
    using div_mult_mod_eq [of "r div 64" 64] by simp
  then have r: "r = a * 262144 + b * 4096 + c * 64 + d" unfolding d_def
    using div_mult_mod_eq [of r 64] by simp
  have "\<exists>lo hi. utf8_first (0xF0 + a) = Some (4, lo, hi) \<and> lo \<le> 0x80 + b \<and> 0x80 + b \<le> hi"
    using a b c d assms unfolding r utf8_first_def by auto
  then obtain lo hi where f: "utf8_first (0xF0 + a) = Some (4, lo, hi)"
    and lh: "lo \<le> 0x80 + b" "0x80 + b \<le> hi" by blast
  have v0: "(0xF0 + a) mod 8 = a" using a by (intro mod_shift) simp_all
  have v1: "(0x80 + b) mod 64 = b" using b by (intro mod_shift) simp_all
  have v2: "(0x80 + c) mod 64 = c" using c by (intro mod_shift) simp_all
  have v3: "(0x80 + d) mod 64 = d" using d by (intro mod_shift) simp_all
  have "utf8_DecodeRuneInString
      (char_of (0xF0 + a) # char_of (0x80 + b) # char_of (0x80 + c) # char_of (0x80 + d) # rest)
      = ((0xF0 + a) mod 8 * 262144 + (0x80 + b) mod 64 * 4096 + (0x80 + c) mod 64 * 64
          + (0x80 + d) mod 64, 4)"
    using a b c d lh by (intro decode_bytes4 [OF _ _ f]) simp_all
  then show ?thesis unfolding v0 v1 v2 v3 r [symmetric] unfolding a_def b_def c_def d_def .
qed

lemma mod_window:
  fixes x :: int
  assumes "k \<le> x" "x < k + m" "k mod m = 0"
  shows "x mod m = x - k"
proof -
  have "(k + (x - k)) mod m = x - k" using assms by (intro mod_shift) simp_all
  then show ?thesis by simp
qed

lemma valid_rune_RuneError: "valid_rune RuneError"
  by (simp add: valid_rune_def RuneError_def MaxRune_def)

lemma byte_range: "0 \<le> byte c" "byte c < 256"
proof -
  have eq: "byte c = int (of_char c)" by (simp add: of_nat_of_char)
  show "0 \<le> byte c" unfolding eq by simp
  have "(of_char c :: nat) < 256" by simp
  then show "byte c < 256" unfolding eq by simp
qed

lemma decode_valid: "valid_rune (fst (utf8_DecodeRuneInString s))"
proof (cases "length s < 1")
  case True
  then show ?thesis by (simp add: utf8_DecodeRuneInString_def valid_rune_RuneError)
next
  case len: False
  define s0 where "s0 = byte (s ! 0)"
  have s0: "0 \<le> s0" "s0 < 256" unfolding s0_def by (rule byte_range)+
  show ?thesis
  proof (cases "s0 < RuneSelf")
    case True
    with len s0 show ?thesis
      by (simp add: utf8_DecodeRuneInString_def s0_def [symmetric] valid_rune_def
          RuneSelf_def MaxRune_def)
  next
    case hi0: False
    show ?thesis
    proof (cases "utf8_first s0")
      case None
      with len hi0 show ?thesis
        by (simp add: utf8_DecodeRuneInString_def s0_def [symmetric] valid_rune_RuneError)
    next
      case (Some t)
      obtain sz lo hi where t: "t = (sz, lo, hi)" by (cases t)
      define s1 where "s1 = byte (s ! 1)"
      define s2 where "s2 = byte (s ! 2)"
      define s3 where "s3 = byte (s ! 3)"
      have m: "0 \<le> s1 mod 64" "s1 mod 64 \<le> 63" "0 \<le> s2 mod 64" "s2 mod 64 \<le> 63"
        "0 \<le> s3 mod 64" "s3 mod 64 \<le> 63" by simp_all
      have d: "utf8_DecodeRuneInString s =
         (if length s < sz then (RuneError, 1)
          else if s1 < lo \<or> hi < s1 then (RuneError, 1)
          else if sz \<le> 2 then (s0 mod 32 * 64 + s1 mod 64, 2)
          else if s2 < 0x80 \<or> 0xBF < s2 then (RuneError, 1)
          else if sz \<le> 3 then (s0 mod 16 * 4096 + s1 mod 64 * 64 + s2 mod 64, 3)
          else if s3 < 0x80 \<or> 0xBF < s3 then (RuneError, 1)
          else (s0 mod 8 * 262144 + s1 mod 64 * 4096 + s2 mod 64 * 64 + s3 mod 64, 4))"
        using len hi0 Some t
        unfolding utf8_DecodeRuneInString_def Let_def s0_def s1_def s2_def s3_def
        by simp
      consider (a) "0xC2 \<le> s0" "s0 \<le> 0xDF" "sz = 2"
        | (b) "s0 = 0xE0" "sz = 3"
        | (c) "0xE1 \<le> s0" "s0 \<le> 0xEC" "sz = 3"
        | (d) "s0 = 0xED" "sz = 3" "hi = 0x9F" "lo = 0x80"
        | (e) "0xEE \<le> s0" "s0 \<le> 0xEF" "sz = 3"
        | (f) "s0 = 0xF0" "sz = 4" "lo = 0x90" "hi = 0xBF"
        | (g) "0xF1 \<le> s0" "s0 \<le> 0xF3" "sz = 4"
        | (h) "s0 = 0xF4" "sz = 4" "hi = 0x8F" "lo = 0x80"
        using Some t unfolding utf8_first_def by (auto split: if_splits)
      then show ?thesis
      proof cases
        case a
        have "s0 mod 32 = s0 - 0xC0" using a by (intro mod_window) simp_all
        with a m show ?thesis unfolding d
          by (simp add: valid_rune_RuneError) (simp add: valid_rune_def MaxRune_def)
      next
        case b
        with m show ?thesis unfolding d
          by (simp add: valid_rune_RuneError) (simp add: valid_rune_def MaxRune_def)
      next
        case c
        have "s0 mod 16 = s0 - 0xE0" using c by (intro mod_window) simp_all
        with c m show ?thesis unfolding d
          by (simp add: valid_rune_RuneError) (auto simp add: valid_rune_def MaxRune_def)
      next
        case d': d
        have "s1 mod 64 = s1 - 0x80" if "0x80 \<le> s1" "s1 \<le> 0x9F"
          using that by (intro mod_window) simp_all
        with d' m show ?thesis unfolding d
          by (simp add: valid_rune_RuneError) (auto simp add: valid_rune_def MaxRune_def)
      next
        case e
        have "s0 mod 16 = s0 - 0xE0" using e by (intro mod_window) simp_all
        with e m show ?thesis unfolding d
          by (simp add: valid_rune_RuneError) (auto simp add: valid_rune_def MaxRune_def)
      next
        case f
        have "s1 mod 64 = s1 - 0x80" if "0x90 \<le> s1" "s1 \<le> 0xBF"
          using that by (intro mod_window) simp_all
        with f m show ?thesis unfolding d
          by (simp add: valid_rune_RuneError) (auto simp add: valid_rune_def MaxRune_def)
      next
        case g
        have "s0 mod 8 = s0 - 0xF0" using g by (intro mod_window) simp_all
        with g m show ?thesis unfolding d
          by (simp add: valid_rune_RuneError) (auto simp add: valid_rune_def MaxRune_def)
      next
        case h
        have "s1 mod 64 = s1 - 0x80" if "0x80 \<le> s1" "s1 \<le> 0x8F"
          using that by (intro mod_window) simp_all
        with h m show ?thesis unfolding d
          by (simp add: valid_rune_RuneError) (auto simp add: valid_rune_def MaxRune_def)
      qed
    qed
  qed
qed

lemma decode_encode:
  assumes "valid_rune r"
  shows "utf8_DecodeRuneInString (utf8_AppendRune r @ rest) = (r, length (utf8_AppendRune r))"
proof -
  from assms have v: "0 \<le> r" "r \<le> 0x10FFFF" "\<not> (0xD800 \<le> r \<and> r \<le> 0xDFFF)"
    by (simp_all add: valid_rune_def MaxRune_def)
  consider (one) "r \<le> 0x7F" | (two) "0x80 \<le> r" "r \<le> 0x7FF"
    | (three) "0x800 \<le> r" "r \<le> 0xFFFF" | (four) "0x10000 \<le> r"
    by linarith
  then show ?thesis
  proof cases
    case one
    with v have "utf8_AppendRune r = [char_of r]" by (simp add: utf8_AppendRune_def)
    with decode_bytes1 [of r rest] v one show ?thesis by simp
  next
    case two
    with v have "utf8_AppendRune r = [char_of (0xC0 + r div 64), char_of (0x80 + r mod 64)]"
      by (simp add: utf8_AppendRune_def)
    with decode_encode2 [OF two, of rest] show ?thesis by simp
  next
    case three
    with v have "utf8_AppendRune r =
        [char_of (0xE0 + r div 4096), char_of (0x80 + r div 64 mod 64),
         char_of (0x80 + r mod 64)]"
      by (auto simp add: utf8_AppendRune_def MaxRune_def)
    with decode_encode3 [OF three v(3), of rest] show ?thesis by simp
  next
    case four
    with v have "utf8_AppendRune r =
        [char_of (0xF0 + r div 262144), char_of (0x80 + r div 4096 mod 64),
         char_of (0x80 + r div 64 mod 64), char_of (0x80 + r mod 64)]"
      by (simp add: utf8_AppendRune_def MaxRune_def)
    with decode_encode4 [OF four v(2), of rest] show ?thesis by simp
  qed
qed

lemma AppendRune_not_Nil: "utf8_AppendRune r \<noteq> []"
  by (simp add: utf8_AppendRune_def)

lemma range_string_Nil: "range_string [] = []"
  by (simp add: range_string.simps)

lemma range_string_encode:
  assumes "list_all valid_rune rs"
  shows "range_string (concat (map utf8_AppendRune rs)) = map (\<lambda>r. (r, utf8_AppendRune r)) rs"
  using assms
proof (induction rs)
  case Nil
  show ?case by (simp add: range_string_Nil)
next
  case (Cons r rs)
  let ?rest = "concat (map utf8_AppendRune rs)"
  from Cons.prems have r: "valid_rune r" and rs: "list_all valid_rune rs" by simp_all
  have "range_string (utf8_AppendRune r @ ?rest)
      = (r, utf8_AppendRune r) # range_string ?rest"
    by (subst range_string.simps) (simp add: AppendRune_not_Nil decode_encode [OF r])
  with Cons.IH [OF rs] show ?case by simp
qed

lemma range_string_valid: "list_all (\<lambda>(c, bs). valid_rune c) (range_string s)"
proof (induction s rule: range_string.induct)
  case (1 s)
  show ?case
  proof (cases "s = []")
    case True
    then show ?thesis by (simp add: range_string_Nil)
  next
    case False
    with 1 have "list_all (\<lambda>(c, bs). valid_rune c)
        (range_string (drop (snd (utf8_DecodeRuneInString s)) s))" by simp
    with False show ?thesis
      by (subst range_string.simps) (simp add: decode_valid)
  qed
qed

subsection \<open>Lower-casing twice\<close>

lemma unicode_ToLower_lower:
  assumes "case_table_ok env" "valid_rune r"
  shows "lower_rune env (unicode_ToLower env r)"
proof (cases "r \<le> MaxASCII")
  case True
  with assms(2) show ?thesis
    by (auto simp: lower_rune_def unicode_ToLower_def valid_rune_def MaxASCII_def MaxRune_def)
next
  case False
  with assms have t: "valid_rune (To_LowerCase env r)" "\<not> isUpperRune (To_LowerCase env r)"
    "MaxASCII < To_LowerCase env r
       \<longrightarrow> To_LowerCase env (To_LowerCase env r) = To_LowerCase env r"
    unfolding case_table_ok_def by auto
  from False have "unicode_ToLower env r = To_LowerCase env r"
    by (simp add: unicode_ToLower_def)
  with t show ?thesis
    by (auto simp: lower_rune_def unicode_ToLower_def isUpperRune_def)
qed

lemma lower_rune_ascii:
  assumes "lower_rune env r" "r \<le> 0x7F"
  shows "utf8_AppendRune r = [char_of r]" "\<not> isUpperByte (char_of r)"
proof -
  from assms have r: "0 \<le> r" "\<not> (0x41 \<le> r \<and> r \<le> 0x5A)"
    by (auto simp: lower_rune_def valid_rune_def unicode_ToLower_def MaxASCII_def
        split: if_splits)
  with assms(2) show "utf8_AppendRune r = [char_of r]" by (simp add: utf8_AppendRune_def)
  have "byte (char_of r) = r" using r(1) assms(2) by (intro byte_char_of) simp_all
  with r(2) show "\<not> isUpperByte (char_of r)" by (simp add: isUpperByte_def)
qed

lemma AppendRune_hd_nonascii:
  assumes "valid_rune r" "0x7F < r"
  shows "\<not> list_all (\<lambda>c. byte c < RuneSelf) (utf8_AppendRune r)"
proof -
  from assms have v: "0 \<le> r" "r \<le> 0x10FFFF"
    by (simp_all add: valid_rune_def MaxRune_def)
  have "fst (utf8_DecodeRuneInString (utf8_AppendRune r @ [])) = r"
    using decode_encode [OF assms(1), of "[]"] by simp
  moreover have "fst (utf8_DecodeRuneInString s) < 0x80" if "s \<noteq> []" "byte (hd s) < RuneSelf" for s
    using that by (cases s) (simp_all add: utf8_DecodeRuneInString_def RuneSelf_def)
  ultimately have "\<not> byte (hd (utf8_AppendRune r)) < RuneSelf"
    using assms(2) AppendRune_not_Nil [of r] by fastforce
  then show ?thesis using AppendRune_not_Nil [of r] by (cases "utf8_AppendRune r") simp_all
qed

lemma lower_runes_ascii:
  assumes "list_all (lower_rune env) rs"
    and "list_all (\<lambda>c. byte c < RuneSelf) (concat (map utf8_AppendRune rs))"
  shows "\<not> list_ex isUpperByte (concat (map utf8_AppendRune rs))"
  using assms
proof (induction rs)
  case Nil
  show ?case by simp
next
  case (Cons r rs)
  from Cons.prems have r: "lower_rune env r" and a: "list_all (\<lambda>c. byte c < RuneSelf) (utf8_AppendRune r)"
    by simp_all
  from r have "valid_rune r" by (simp add: lower_rune_def)
  with a AppendRune_hd_nonascii [of r] have "r \<le> 0x7F" by fastforce
  from lower_rune_ascii [OF r this] Cons show ?case by simp
qed

lemma Map_lower_runes:
  assumes "list_all (lower_rune env) rs"
  shows "strings_Map (unicode_ToLower env) (concat (map utf8_AppendRune rs))
           = concat (map utf8_AppendRune rs)"
proof -
  from assms have v: "list_all valid_rune rs"
    by (simp add: list_all_iff lower_rune_def)
  have "map (\<lambda>(c, _). let r = unicode_ToLower env c in if 0 \<le> r then utf8_AppendRune r else [])
          (map (\<lambda>r. (r, utf8_AppendRune r)) rs) = map utf8_AppendRune rs"
    using assms by (induction rs) (simp_all add: lower_rune_def valid_rune_def)
  then show ?thesis by (simp only: strings_Map_def range_string_encode [OF v])
qed

lemma ToLower_lower_runes:
  assumes "list_all (lower_rune env) rs"
  shows "strings_ToLower env (concat (map utf8_AppendRune rs)) = concat (map utf8_AppendRune rs)"
  using lower_runes_ascii [OF assms] Map_lower_runes [OF assms]
  by (simp add: strings_ToLower_def Let_def)

lemma Map_ToLower_form:
  assumes "case_table_ok env"
  shows "\<exists>rs. list_all (lower_rune env) rs
           \<and> strings_Map (unicode_ToLower env) s = concat (map utf8_AppendRune rs)"
proof -
  define rs where "rs = map (\<lambda>(c, _). unicode_ToLower env c) (range_string s)"
  have l: "list_all (lower_rune env) rs"
    using range_string_valid [of s] unicode_ToLower_lower [OF assms]
    by (auto simp: rs_def list_all_iff)
  have "(let r = unicode_ToLower env c in if 0 \<le> r then utf8_AppendRune r else [])
      = utf8_AppendRune (unicode_ToLower env c)" if "valid_rune c" for c
    using unicode_ToLower_lower [OF assms that]
    by (simp add: lower_rune_def valid_rune_def Let_def)
  then have "map (\<lambda>(c, _). let r = unicode_ToLower env c in if 0 \<le> r then utf8_AppendRune r else [])
        (range_string s) = map utf8_AppendRune rs"
    using range_string_valid [of s] by (auto simp: rs_def list_all_iff)
  with l show ?thesis by (auto simp: strings_Map_def)
qed

lemma ToLower_ascii_fixed:
  assumes "list_all (\<lambda>c. byte c < RuneSelf) s"
  shows "strings_ToLower env (strings_ToLower env s) = strings_ToLower env s"
proof (cases "list_ex isUpperByte s")
  case False
  with assms show ?thesis by (simp add: strings_ToLower_def)
next
  case True
  define f where "f = (\<lambda>c. if isUpperByte c
      then char_of (byte c + (byte CHR ''a'' - byte CHR ''A'')) else c)"
  have t: "strings_ToLower env s = map f s"
    using assms True by (simp add: strings_ToLower_def f_def)
  have fc: "byte (f c) < RuneSelf \<and> \<not> isUpperByte (f c)" if "byte c < RuneSelf" for c
    using that by (auto simp: f_def isUpperByte_def RuneSelf_def)
  from assms have "list_all (\<lambda>c. byte c < RuneSelf) (map f s)" "\<not> list_ex isUpperByte (map f s)"
    using fc by (auto simp: list_all_iff list_ex_iff)
  then show ?thesis unfolding t by (simp add: strings_ToLower_def)
qed

lemma ToLower_idem:
  assumes "case_table_ok env \<or> list_all (\<lambda>c. byte c < RuneSelf) s"
  shows "strings_ToLower env (strings_ToLower env s) = strings_ToLower env s"
proof (cases "list_all (\<lambda>c. byte c < RuneSelf) s")
  case True
  then show ?thesis by (rule ToLower_ascii_fixed)
next
  case False
  with assms have ok: "case_table_ok env" by simp
  from False have t: "strings_ToLower env s = strings_Map (unicode_ToLower env) s"
    by (simp add: strings_ToLower_def)
  from Map_ToLower_form [OF ok, of s] obtain rs where
    "list_all (lower_rune env) rs"
    "strings_Map (unicode_ToLower env) s = concat (map utf8_AppendRune rs)"
    by blast
  with ToLower_lower_runes [of env rs] show ?thesis unfolding t by simp
qed

lemma example_table_ok: "case_table_ok example_env"
  unfolding case_table_ok_def
  by (auto simp: valid_rune_def isUpperRune_def MaxASCII_def MaxRune_def example_env_def)

lemma ToLower_SXI:
  "strings_ToLower example_env [CHR ''S'', CHR ''X'', CHR 0xC4, CHR 0xB0] = ''sxi''"
  by (simp add: strings_ToLower_def isUpperByte_def RuneSelf_def strings_Map_def
      range_string.simps utf8_DecodeRuneInString_def utf8_first_def unicode_ToLower_def
      MaxASCII_def example_env_def utf8_AppendRune_def char_of_eq_iff)

text \<open>
  Claim C4. For every extension string \<open>e\<close>, each of \<open>IsExtensionSupported\<close>,
  \<open>IsExtensionEditable\<close>, \<open>IsExtensionViewOnly\<close>, \<open>IsExtensionLossEditable\<close>,
  \<open>IsExtensionOOXMLConvertable\<close> and \<open>GetFileType\<close> returns on \<open>e\<close> what it returns on
  \<open>ToLower(e)\<close>: the classification does not depend on the case of its argument. For a
  string of ASCII bytes nothing else is needed; for a string with a byte outside ASCII
  this rests on the Unicode case table, of which \<open>case_table_ok\<close> says what is used.
\<close>

theorem classification_case_insensitive:
  assumes "case_table_ok env \<or> list_all (\<lambda>c. byte c < RuneSelf) e"
  shows "IsExtensionSupported env g (strings_ToLower env e) = IsExtensionSupported env g e
    \<and> IsExtensionEditable env g (strings_ToLower env e) = IsExtensionEditable env g e
    \<and> IsExtensionViewOnly env g (strings_ToLower env e) = IsExtensionViewOnly env g e
    \<and> IsExtensionLossEditable env g (strings_ToLower env e) = IsExtensionLossEditable env g e
    \<and> IsExtensionOOXMLConvertable env g (strings_ToLower env e)
        = IsExtensionOOXMLConvertable env g e
    \<and> GetFileType env g (strings_ToLower env e) = GetFileType env g e"
  by (simp add: IsExtensionSupported_def IsExtensionEditable_def IsExtensionViewOnly_def
      IsExtensionLossEditable_def IsExtensionOOXMLConvertable_def GetFileType_def
      ToLower_idem [OF assms])

theorem classification_case_insensitive_witness:
  "case_table_ok example_env
   \<and> strings_ToLower example_env [CHR ''S'', CHR ''X'', CHR 0xC4, CHR 0xB0] = ''sxi''
   \<and> IsExtensionSupported example_env package_init ''sxi''
       = IsExtensionSupported example_env package_init [CHR ''S'', CHR ''X'', CHR 0xC4, CHR 0xB0]
   \<and> GetFileType example_env package_init ''sxi''
       = GetFileType example_env package_init [CHR ''S'', CHR ''X'', CHR 0xC4, CHR 0xB0]
   \<and> list_all (\<lambda>c. byte c < RuneSelf) ''DOCX''
   \<and> strings_ToLower example_env ''DOCX'' = ''docx''
   \<and> GetFileType example_env package_init ''docx''
       = GetFileType example_env package_init ''DOCX''"
proof -
  have ascii: "list_all (\<lambda>c. byte c < RuneSelf) ''DOCX''" by (simp add: RuneSelf_def)
  have ok: "case_table_ok example_env \<or> list_all (\<lambda>c. byte c < RuneSelf) e" for e
    using example_table_ok by simp
  from classification_case_insensitive [OF ok, of package_init
      "[CHR ''S'', CHR ''X'', CHR 0xC4, CHR 0xB0]"]
  have "IsExtensionSupported example_env package_init ''sxi''
       = IsExtensionSupported example_env package_init [CHR ''S'', CHR ''X'', CHR 0xC4, CHR 0xB0]"
    "GetFileType example_env package_init ''sxi''
       = GetFileType example_env package_init [CHR ''S'', CHR ''X'', CHR 0xC4, CHR 0xB0]"
    by (simp_all only: ToLower_SXI)
  moreover
  from ascii have "case_table_ok example_env \<or> list_all (\<lambda>c. byte c < RuneSelf) ''DOCX''"
    by (rule disjI2)
  from classification_case_insensitive [OF this, of package_init]
  have "GetFileType example_env package_init ''docx''
       = GetFileType example_env package_init ''DOCX''"
    by (simp only: ToLower_DOCX)
  ultimately show ?thesis using example_table_ok ToLower_SXI ToLower_DOCX ascii by blast
qed

end
